theory Spec2Isabelle
  imports Complex_Main "HOL-Library.AList"
begin

section \<open>L2MBossTracker: boss respawn estimates and notification timers\<close>

text \<open>
  The repository holds two copies of the bot: \<^verbatim>\<open>src/index.js\<close> and a later copy
  (\<^verbatim>\<open>src/unnamed/part_000\<close>).  They share the estimation arithmetic and the timer
  code and differ in a few places (the pre-spawn lead, the future check of the
  \<^verbatim>\<open>killed\<close> command, where \<^verbatim>\<open>saveBossData\<close> is called, the import file of
  \<^verbatim>\<open>loadBossData\<close>).  Every function below that differs between the copies takes the
  copy as its first argument.
\<close>

datatype build = Index_js | Part_000

subsection \<open>Data\<close>

text \<open>
  JavaScript numbers are modelled as exact rationals: timestamps are milliseconds,
  respawn intervals are hours as \<^verbatim>\<open>parseFloat\<close> returned them.  Rounding of doubles,
  \<^verbatim>\<open>NaN\<close> and infinities are not modelled.  \<^verbatim>\<open>null\<close> is \<open>None\<close>.
\<close>

type_synonym num = rat

record boss =
  name :: string
  location :: string
  minRespawnHours :: num
  maxRespawnHours :: "num option"
  lastKilled :: "num option"
  nextSpawnEstimateMin :: "num option"
  nextSpawnEstimateMax :: "num option"
  isWindow :: bool
  notificationJob :: "string option"
  spawnNotificationJob :: "string option"
  autoMissJob :: "string option"
  messageIdToTrack :: "string option"
  notificationChannelId :: "string option"
  originalChannelId :: "string option"

text \<open>Truthiness of a nullable number (\<^verbatim>\<open>null\<close> and \<^verbatim>\<open>0\<close> are falsy) and of a
  nullable string (\<^verbatim>\<open>null\<close> and the empty string are falsy).\<close>

definition truthy :: "num option \<Rightarrow> bool" where
  "truthy v = (case v of None \<Rightarrow> False | Some x \<Rightarrow> x \<noteq> 0)"

definition truthyStr :: "string option \<Rightarrow> bool" where
  "truthyStr v = (case v of None \<Rightarrow> False | Some x \<Rightarrow> x \<noteq> [])"

text \<open>\<^verbatim>\<open>a || b\<close> on nullable strings.\<close>

definition orStr :: "string option \<Rightarrow> string option \<Rightarrow> string option" where
  "orStr a b = (if truthyStr a then a else b)"

text \<open>
  The closure that \<^verbatim>\<open>setTimeout\<close> receives.  A closure captures \<^verbatim>\<open>guildId\<close> and
  \<^verbatim>\<open>bossKey\<close> (and with them \<^verbatim>\<open>timerKey\<close>); the auto-miss closure also captures
  \<^verbatim>\<open>originalMessageId\<close> and \<^verbatim>\<open>channelIdForAutoMissMessage\<close>.
\<close>

datatype callback =
    PreCallback string string
  | SpawnCallback string string
  | AutoMissCallback string string string string

record timeout =
  handle :: nat
  due :: num
  callback :: callback

datatype notice = PreAlert | SpawnAlert | AutoMissNotice

datatype delivery =
    Sent string notice string string
  | Replied string

text \<open>
  The state: \<^verbatim>\<open>client.bossData\<close> and \<^verbatim>\<open>client.activeTimers\<close> (JavaScript maps keep
  insertion order, so they are association lists; \<open>AList.update\<close> replaces in place or
  appends, as \<^verbatim>\<open>Map.set\<close> does), the timers armed in the runtime with the counter that
  names the next \<^verbatim>\<open>Timeout\<close> object, the messages delivered so far, and the
  two files \<^verbatim>\<open>boss_data.json\<close> and \<^verbatim>\<open>boss_data_import.json\<close>.
\<close>

type_synonym collection = "(string \<times> boss) list"

text \<open>
  A file on disk: absent, present but unreadable, readable but rejected by
  \<^verbatim>\<open>JSON.parse\<close>, or holding a parsed object.  The parsed object maps guild ids to
  maps from boss keys to boss objects; an entry \<open>None\<close> is a JSON \<^verbatim>\<open>null\<close> in the
  place of a boss object.  (Other JSON shapes are not modelled.)
\<close>

type_synonym loaded = "(string \<times> (string \<times> boss option) list) list"

datatype file_state = Missing | Unreadable | Unparseable | Json loaded

record bot =
  bossData :: "(string \<times> collection) list"
  activeTimers :: "(string \<times> nat) list"
  timeouts :: "timeout list"
  nextHandle :: nat
  outbox :: "delivery list"
  dataFile :: file_state
  importFile :: file_state

text \<open>
  What the outside world answers to one stretch of synchronous code (a handler or a timer
  callback up to its next \<^verbatim>\<open>await\<close>, or the rest of it after an \<^verbatim>\<open>await\<close>): which
  channel ids \<^verbatim>\<open>client.channels.fetch\<close> resolves, the id of the message a \<^verbatim>\<open>send\<close>
  returns (\<open>None\<close> when the promise rejects), whether \<^verbatim>\<open>interaction.reply\<close>
  resolves, whether \<^verbatim>\<open>fs.writeFileSync\<close> succeeds, and whether the message in question
  (the message of the interaction, the tracked message that the auto-miss timer fetches)
  is there and shows buttons.  One stretch of synchronous code runs on one reading of the
  clock.
\<close>

record io =
  channelFound :: "string \<Rightarrow> bool"
  sendId :: "string option"
  replyOk :: bool
  writeOk :: bool
  buttonsShown :: bool

definition PRE_SPAWN_NOTIFICATION_MINUTES :: "build \<Rightarrow> num" where
  "PRE_SPAWN_NOTIFICATION_MINUTES v = (case v of Index_js \<Rightarrow> 15 | Part_000 \<Rightarrow> 10)"

definition AUTO_MISS_TIMEOUT_MINUTES :: num where
  "AUTO_MISS_TIMEOUT_MINUTES = 20"

subsection \<open>Store access\<close>

text \<open>\<^verbatim>\<open>client.bossData.get(guildId)?.get(bossKey)\<close>\<close>

definition getBoss :: "bot \<Rightarrow> string \<Rightarrow> string \<Rightarrow> boss option" where
  "getBoss s guildId bossKey =
     (case map_of (bossData s) guildId of
        None \<Rightarrow> None
      | Some guildBosses \<Rightarrow> map_of guildBosses bossKey)"

text \<open>Assignments to fields of the boss object stored under \<open>(guildId, bossKey)\<close>;
  nothing happens when there is no such object.\<close>

definition modifyBoss :: "string \<Rightarrow> string \<Rightarrow> (boss \<Rightarrow> boss) \<Rightarrow> bot \<Rightarrow> bot" where
  "modifyBoss guildId bossKey f s =
     s\<lparr>bossData := AList.map_entry guildId (AList.map_entry bossKey f) (bossData s)\<rparr>"

definition fetchChannel :: "io \<Rightarrow> string option \<Rightarrow> string option" where
  "fetchChannel w c =
     (case c of
        None \<Rightarrow> None
      | Some ch \<Rightarrow> if channelFound w ch then Some ch else None)"

definition deliver :: "delivery \<Rightarrow> bot \<Rightarrow> bot" where
  "deliver d s = s\<lparr>outbox := outbox s @ [d]\<rparr>"

text \<open>\<^verbatim>\<open>interaction.reply\<close> and \<^verbatim>\<open>message.reply\<close>, when the promise resolves.\<close>

definition reply :: "io \<Rightarrow> string \<Rightarrow> bot \<Rightarrow> bot" where
  "reply w txt s = (if replyOk w then deliver (Replied txt) s else s)"

subsection \<open>saveBossData\<close>

definition stripJobs :: "boss \<Rightarrow> boss" where
  "stripJobs b = b\<lparr>notificationJob := None, spawnNotificationJob := None, autoMissJob := None\<rparr>"

definition saveBossData :: "io \<Rightarrow> bot \<Rightarrow> bot" where
  "saveBossData w s =
     (if writeOk w
      then s\<lparr>dataFile := Json (map (\<lambda>(guildId, guildBosses).
                 (guildId, map (\<lambda>(bossKey, b). (bossKey, Some (stripJobs b))) guildBosses))
                 (bossData s))\<rparr>
      else s)"

subsection \<open>Timers\<close>

definition timerKey :: "string \<Rightarrow> string \<Rightarrow> string \<Rightarrow> string" where
  "timerKey guildId bossKey ty = guildId @ ''_'' @ bossKey @ ''_'' @ ty"

definition clearTimeout :: "nat \<Rightarrow> bot \<Rightarrow> bot" where
  "clearTimeout h s = s\<lparr>timeouts := filter (\<lambda>t. handle t \<noteq> h) (timeouts s)\<rparr>"

text \<open>
  Node keeps a delay of at most \<open>2147483647\<close> ms and replaces a longer one by \<open>1\<close> ms.
  (It does the same to a delay below \<open>1\<close> ms and drops the fraction of a millisecond.
  Either moves the time at which a timer is due by less than a millisecond, and neither is
  modelled: the model's timers are due at exact rational times.)
\<close>

definition timerDelay :: "num \<Rightarrow> num" where
  "timerDelay delay = (if delay > 2147483647 then 1 else delay)"

definition setTimeout :: "callback \<Rightarrow> num \<Rightarrow> num \<Rightarrow> bot \<Rightarrow> nat \<times> bot" where
  "setTimeout cb delay now s =
     (nextHandle s,
      s\<lparr>timeouts := timeouts s @ [\<lparr>handle = nextHandle s, due = now + timerDelay delay,
                                    callback = cb\<rparr>],
        nextHandle := Suc (nextHandle s)\<rparr>)"

text \<open>The idiom \<^verbatim>\<open>const t = client.activeTimers.get(key); if (t) { clearTimeout(t);
  client.activeTimers.delete(key); }\<close>\<close>

definition clearTimerKey :: "string \<Rightarrow> bot \<Rightarrow> bot" where
  "clearTimerKey key s =
     (case map_of (activeTimers s) key of
        None \<Rightarrow> s
      | Some h \<Rightarrow> (clearTimeout h s)\<lparr>activeTimers := AList.delete key (activeTimers s)\<rparr>)"

definition clearBossTimers :: "string \<Rightarrow> string \<Rightarrow> bot \<Rightarrow> bot" where
  "clearBossTimers guildId bossKey s =
     modifyBoss guildId bossKey
       (\<lambda>b. b\<lparr>notificationJob := None, spawnNotificationJob := None, autoMissJob := None\<rparr>)
       (foldl (\<lambda>s' ty. clearTimerKey (timerKey guildId bossKey ty) s') s
          [''pre'', ''spawn'', ''automiss''])"

text \<open>\<^verbatim>\<open>const timer = setTimeout(cb, delay); client.activeTimers.set(timerKey, timer)\<close>\<close>

definition arm :: "string \<Rightarrow> callback \<Rightarrow> num \<Rightarrow> num \<Rightarrow> bot \<Rightarrow> bot" where
  "arm key cb delay now s =
     (case setTimeout cb delay now s of
        (h, s') \<Rightarrow> s'\<lparr>activeTimers := AList.update key h (activeTimers s')\<rparr>)"

definition scheduleBossNotifications :: "build \<Rightarrow> num \<Rightarrow> string \<Rightarrow> string \<Rightarrow> bot \<Rightarrow> bot" where
  "scheduleBossNotifications v now guildId bossKey s =
     (case getBoss s guildId bossKey of
        None \<Rightarrow> s
      | Some b \<Rightarrow>
         (case nextSpawnEstimateMin b of
            None \<Rightarrow> s
          | Some m \<Rightarrow>
             if m = 0 then s
             else
               let preSpawnTime = m - PRE_SPAWN_NOTIFICATION_MINUTES v * 60 * 1000;
                   spawnTime = m;
                   s1 = clearBossTimers guildId bossKey s;
                   s2 = (if preSpawnTime > now
                         then modifyBoss guildId bossKey
                                (\<lambda>b. b\<lparr>notificationJob := Some (timerKey guildId bossKey ''pre'')\<rparr>)
                                (arm (timerKey guildId bossKey ''pre'')
                                   (PreCallback guildId bossKey) (preSpawnTime - now) now s1)
                         else s1)
               in if spawnTime > now
                  then modifyBoss guildId bossKey
                         (\<lambda>b. b\<lparr>spawnNotificationJob := Some (timerKey guildId bossKey ''spawn'')\<rparr>)
                         (arm (timerKey guildId bossKey ''spawn'')
                            (SpawnCallback guildId bossKey) (spawnTime - now) now s2)
                  else s2))"

definition scheduleAutoMissTimer ::
  "build \<Rightarrow> io \<Rightarrow> num \<Rightarrow> string \<Rightarrow> string \<Rightarrow> string \<Rightarrow> string \<Rightarrow> bot \<Rightarrow> bot" where
  "scheduleAutoMissTimer v w now guildId bossKey originalMessageId channelIdForAutoMissMessage s =
     (let s1 = clearTimerKey (timerKey guildId bossKey ''automiss'') s
      in case getBoss s1 guildId bossKey of
           None \<Rightarrow> s1
         | Some bossDataRef \<Rightarrow>
            let s2 = modifyBoss guildId bossKey
                       (\<lambda>b. b\<lparr>autoMissJob := Some (timerKey guildId bossKey ''automiss'')\<rparr>)
                       (arm (timerKey guildId bossKey ''automiss'')
                          (AutoMissCallback guildId bossKey originalMessageId
                             channelIdForAutoMissMessage)
                          (AUTO_MISS_TIMEOUT_MINUTES * 60 * 1000) now s1)
            in (case v of Index_js \<Rightarrow> s2 | Part_000 \<Rightarrow> saveBossData w s2))"

subsection \<open>The estimates\<close>

text \<open>The assignments of \<^verbatim>\<open>updateBossAsKilled\<close>.\<close>

definition killedUpdate :: "num \<Rightarrow> boss \<Rightarrow> boss" where
  "killedUpdate killTimestamp b =
     b\<lparr>lastKilled := Some killTimestamp,
       isWindow := False,
       nextSpawnEstimateMin := Some (killTimestamp + minRespawnHours b * 60 * 60 * 1000),
       nextSpawnEstimateMax :=
         (case maxRespawnHours b of
            None \<Rightarrow> None
          | Some mx \<Rightarrow>
             if mx \<noteq> 0 \<and> mx > minRespawnHours b
             then Some (killTimestamp + mx * 60 * 60 * 1000)
             else None)\<rparr>"

text \<open>The assignments of the \<^verbatim>\<open>miss\<close> branch of the button handler.\<close>

definition missUpdate :: "num \<Rightarrow> boss \<Rightarrow> boss" where
  "missUpdate now b =
     b\<lparr>isWindow := True,
       lastKilled := None,
       nextSpawnEstimateMin := Some (now + minRespawnHours b * 60 * 60 * 1000),
       nextSpawnEstimateMax :=
         (case maxRespawnHours b of
            None \<Rightarrow> Some (now + (minRespawnHours b + 1) * 60 * 60 * 1000)
          | Some mx \<Rightarrow>
             if mx \<noteq> 0 \<and> mx > minRespawnHours b
             then Some (now + mx * 60 * 60 * 1000)
             else Some (now + (minRespawnHours b + 1) * 60 * 60 * 1000))\<rparr>"

text \<open>The assignments of the \<^verbatim>\<open>notappeared\<close> branch of the button handler.\<close>

definition notAppearedUpdate :: "num \<Rightarrow> boss \<Rightarrow> boss" where
  "notAppearedUpdate now b =
     (let baseTime = (case nextSpawnEstimateMin b of
                        None \<Rightarrow> now
                      | Some m \<Rightarrow> if m = 0 then now else m);
          newMin = baseTime + 1 * 60 * 60 * 1000;
          derived = (case maxRespawnHours b of
                       None \<Rightarrow> newMin + 1 * 60 * 60 * 1000
                     | Some mx \<Rightarrow>
                        if mx = 0 then newMin + 1 * 60 * 60 * 1000
                        else if newMin + (mx - minRespawnHours b) * 60 * 60 * 1000 \<le> newMin
                             then newMin + 1 * 60 * 60 * 1000
                             else newMin + (mx - minRespawnHours b) * 60 * 60 * 1000)
      in b\<lparr>isWindow := True,
           lastKilled := None,
           nextSpawnEstimateMin := Some newMin,
           nextSpawnEstimateMax :=
             (case nextSpawnEstimateMax b of
                None \<Rightarrow> Some derived
              | Some e \<Rightarrow> if e = 0 then Some derived else Some (e + 1 * 60 * 60 * 1000))\<rparr>)"

text \<open>The assignments in the body of the auto-miss timer.\<close>

definition autoMissUpdate :: "num \<Rightarrow> boss \<Rightarrow> boss" where
  "autoMissUpdate now currentBossData =
     currentBossData\<lparr>isWindow := True,
       lastKilled := None,
       nextSpawnEstimateMin := Some (now + minRespawnHours currentBossData * 60 * 60 * 1000),
       nextSpawnEstimateMax :=
         (case maxRespawnHours currentBossData of
            None \<Rightarrow> Some (now + (minRespawnHours currentBossData + 1) * 60 * 60 * 1000)
          | Some mx \<Rightarrow>
             if mx \<noteq> 0 \<and> mx > minRespawnHours currentBossData
             then Some (now + mx * 60 * 60 * 1000)
             else Some (now + (minRespawnHours currentBossData + 1) * 60 * 60 * 1000)),
       messageIdToTrack := None,
       autoMissJob := None\<rparr>"

subsection \<open>updateBossAsKilled\<close>

text \<open>
  \<open>viaInteraction\<close> tells whether the \<^verbatim>\<open>interaction\<close> argument is present.  Neither
  reply is awaited, so a rejected reply does not stop the function.
\<close>

definition updateBossAsKilled ::
  "build \<Rightarrow> io \<Rightarrow> num \<Rightarrow> string \<Rightarrow> string \<Rightarrow> num \<Rightarrow> bool \<Rightarrow> bot \<Rightarrow> bot" where
  "updateBossAsKilled v w now guildId bossKey killTimestamp viaInteraction s =
     (case getBoss s guildId bossKey of
        None \<Rightarrow> s
      | Some b \<Rightarrow>
         let s1 = modifyBoss guildId bossKey (killedUpdate killTimestamp) s;
             s2 = (if viaInteraction then reply w ''killed'' s1
                   else (case sendId w of
                           None \<Rightarrow> s1
                         | Some m \<Rightarrow> deliver (Replied ''killed'') s1))
         in saveBossData w
              (scheduleBossNotifications v now guildId bossKey
                 (clearBossTimers guildId bossKey s2)))"

subsection \<open>Asynchronous functions\<close>

text \<open>
  The timer callbacks and the button handler are \<^verbatim>\<open>async\<close> functions.  Such a function
  runs until its next \<^verbatim>\<open>await\<close>; the rest of it runs later, when the awaited promise has
  settled, and other handlers and callbacks may have run in between.  Every stretch of code
  between two \<^verbatim>\<open>await\<close>s is a function of its own below.  It returns the state it leaves
  and, when the \<^verbatim>\<open>async\<close> function is waiting again, the place where it waits with the
  local variables that the rest of the function reads.  \<open>None\<close> in that place says that
  the \<^verbatim>\<open>async\<close> function has returned (or thrown).

  The places, in the order of the source: in the pre-spawn callback,
  \<^verbatim>\<open>await client.channels.fetch\<close> (with the channel id asked for) and
  \<^verbatim>\<open>await notifyChannel.send\<close> (with the channel found); the same two in the spawn
  callback (in \<^verbatim>\<open>part_000\<close> they are inside \<^verbatim>\<open>triggerSpawnNotification\<close>, which the
  callback awaits; when that function returns, the callback goes on in the same turn of the
  event loop); in the auto-miss callback, the fetch of the channel of the tracked message,
  the fetch of that message, the edit that strips its buttons, the fetch of the channel for
  the notice, and the send of the notice; in the button handler, the edit after a boss was
  not found, the edit that strips the buttons, and \<^verbatim>\<open>await interaction.reply\<close>.
\<close>

datatype suspended =
    PreFetch string string "string option"
  | PreSend string string string
  | SpawnFetch string string "string option"
  | SpawnSend string string string
  | AutoMissFetch string string string "string option"
  | AutoMissMessage string string string
  | AutoMissEdit string string string
  | AutoMissNoticeFetch string string string
  | AutoMissNoticeSend string string string
  | ButtonMissing
  | ButtonEdit "string option" string string
  | ButtonReply string string string

text \<open>
  The auto-miss callback and the button handler hold the boss object they found
  (\<^verbatim>\<open>currentBossData\<close>, \<^verbatim>\<open>boss\<close>) across their \<^verbatim>\<open>await\<close>s and go on reading and
  assigning its fields.  As a rule that object is still the one stored under its key when
  the function is resumed; it is not when the boss was removed in between
  (\<^verbatim>\<open>guildBosses.delete\<close>), and then the assignments change an object that
  \<^verbatim>\<open>client.bossData\<close> does not hold any more.  A resumed stretch of code therefore
  receives \<open>held\<close>: \<open>None\<close> when the object is still stored under
  \<open>(guildId, bossKey)\<close>, and otherwise the object as it is at that moment.
\<close>

definition heldBoss :: "boss option \<Rightarrow> string \<Rightarrow> string \<Rightarrow> bot \<Rightarrow> boss option" where
  "heldBoss held guildId bossKey s =
     (case held of None \<Rightarrow> getBoss s guildId bossKey | Some removed \<Rightarrow> Some removed)"

definition assign :: "boss option \<Rightarrow> string \<Rightarrow> string \<Rightarrow> (boss \<Rightarrow> boss) \<Rightarrow> bot \<Rightarrow> bot" where
  "assign held guildId bossKey f s =
     (case held of None \<Rightarrow> modifyBoss guildId bossKey f s | Some removed \<Rightarrow> s)"

subsection \<open>The pre-spawn callback\<close>

text \<open>The two statements after the \<^verbatim>\<open>try\<close> block.\<close>

definition preFinish :: "string \<Rightarrow> string \<Rightarrow> bot \<Rightarrow> bot" where
  "preFinish guildId bossKey s =
     modifyBoss guildId bossKey (\<lambda>b. b\<lparr>notificationJob := None\<rparr>)
       (s\<lparr>activeTimers := AList.delete (timerKey guildId bossKey ''pre'') (activeTimers s)\<rparr>)"

text \<open>From the call of the closure to the first \<^verbatim>\<open>await\<close>.  The \<^verbatim>\<open>return\<close> of the
  guard leaves the function: the statements after the \<^verbatim>\<open>try\<close> block do not run.\<close>

definition preTimerFired :: "string \<Rightarrow> string \<Rightarrow> bot \<Rightarrow> bot \<times> suspended option" where
  "preTimerFired guildId bossKey s =
     (case getBoss s guildId bossKey of
        None \<Rightarrow> (s, None)
      | Some currentBossData \<Rightarrow>
         if notificationJob currentBossData \<noteq> Some (timerKey guildId bossKey ''pre'')
         then (s, None)
         else (s, Some (PreFetch guildId bossKey
                          (orStr (notificationChannelId currentBossData)
                                 (originalChannelId currentBossData)))))"

definition preFetched ::
  "io \<Rightarrow> string \<Rightarrow> string \<Rightarrow> string option \<Rightarrow> bot \<Rightarrow> bot \<times> suspended option" where
  "preFetched w guildId bossKey asked s =
     (case fetchChannel w asked of
        None \<Rightarrow> (preFinish guildId bossKey s, None)
      | Some notifyChannel \<Rightarrow> (s, Some (PreSend guildId bossKey notifyChannel)))"

definition preSent ::
  "io \<Rightarrow> string \<Rightarrow> string \<Rightarrow> string \<Rightarrow> bot \<Rightarrow> bot \<times> suspended option" where
  "preSent w guildId bossKey notifyChannel s =
     (preFinish guildId bossKey
        (case sendId w of
           None \<Rightarrow> s
         | Some m \<Rightarrow> deliver (Sent notifyChannel PreAlert guildId bossKey) s),
      None)"

subsection \<open>The spawn callback\<close>

definition spawnFinish :: "string \<Rightarrow> string \<Rightarrow> bot \<Rightarrow> bot" where
  "spawnFinish guildId bossKey s =
     modifyBoss guildId bossKey (\<lambda>b. b\<lparr>spawnNotificationJob := None\<rparr>)
       (s\<lparr>activeTimers := AList.delete (timerKey guildId bossKey ''spawn'') (activeTimers s)\<rparr>)"

definition spawnTimerFired :: "string \<Rightarrow> string \<Rightarrow> bot \<Rightarrow> bot \<times> suspended option" where
  "spawnTimerFired guildId bossKey s =
     (case getBoss s guildId bossKey of
        None \<Rightarrow> (s, None)
      | Some currentBossData \<Rightarrow>
         if spawnNotificationJob currentBossData \<noteq> Some (timerKey guildId bossKey ''spawn'')
         then (s, None)
         else (s, Some (SpawnFetch guildId bossKey
                          (orStr (notificationChannelId currentBossData)
                                 (originalChannelId currentBossData)))))"

definition spawnFetched ::
  "io \<Rightarrow> string \<Rightarrow> string \<Rightarrow> string option \<Rightarrow> bot \<Rightarrow> bot \<times> suspended option" where
  "spawnFetched w guildId bossKey asked s =
     (case fetchChannel w asked of
        None \<Rightarrow> (spawnFinish guildId bossKey s, None)
      | Some notifyChannel \<Rightarrow> (s, Some (SpawnSend guildId bossKey notifyChannel)))"

text \<open>
  After \<^verbatim>\<open>await notifyChannel.send\<close>.  A rejected send is caught.  After a send that
  resolved the boss is looked up again (\<^verbatim>\<open>bossRef\<close>); \<^verbatim>\<open>part_000\<close> saves the data here.
  Then the callback deletes its timer key and resets the job field, whatever timer the key
  names by now.
\<close>

definition spawnSent ::
  "build \<Rightarrow> io \<Rightarrow> num \<Rightarrow> string \<Rightarrow> string \<Rightarrow> string \<Rightarrow> bot \<Rightarrow> bot \<times> suspended option" where
  "spawnSent v w now guildId bossKey notifyChannel s =
     (spawnFinish guildId bossKey
        (case sendId w of
           None \<Rightarrow> s
         | Some sentMessageId \<Rightarrow>
            let s1 = deliver (Sent notifyChannel SpawnAlert guildId bossKey) s
            in case getBoss s1 guildId bossKey of
                 None \<Rightarrow> s1
               | Some bossRef \<Rightarrow>
                  let s2 = modifyBoss guildId bossKey
                             (\<lambda>b. b\<lparr>messageIdToTrack := Some sentMessageId\<rparr>) s1;
                      s3 = scheduleAutoMissTimer v w now guildId bossKey sentMessageId
                             notifyChannel s2
                  in (case v of Index_js \<Rightarrow> s3 | Part_000 \<Rightarrow> saveBossData w s3)),
      None)"

subsection \<open>The auto-miss callback\<close>

text \<open>The \<^verbatim>\<open>finally\<close> block.\<close>

definition autoMissFinally :: "string \<Rightarrow> string \<Rightarrow> bot \<Rightarrow> bot" where
  "autoMissFinally guildId bossKey s =
     modifyBoss guildId bossKey
       (\<lambda>b. if autoMissJob b = Some (timerKey guildId bossKey ''automiss'')
            then b\<lparr>autoMissJob := None\<rparr> else b)
       (s\<lparr>activeTimers :=
            AList.delete (timerKey guildId bossKey ''automiss'') (activeTimers s)\<rparr>)"

text \<open>From the call of the closure to the first \<^verbatim>\<open>await\<close>: the guard, which deletes the
  timer key and returns through the \<^verbatim>\<open>finally\<close> block when it fails.\<close>

definition autoMissTimerFired ::
  "string \<Rightarrow> string \<Rightarrow> string \<Rightarrow> string \<Rightarrow> bot \<Rightarrow> bot \<times> suspended option" where
  "autoMissTimerFired guildId bossKey originalMessageId channelIdForAutoMissMessage s =
     (let stale = autoMissFinally guildId bossKey
                    (s\<lparr>activeTimers :=
                         AList.delete (timerKey guildId bossKey ''automiss'') (activeTimers s)\<rparr>)
      in case getBoss s guildId bossKey of
           None \<Rightarrow> (stale, None)
         | Some currentBossData \<Rightarrow>
            if autoMissJob currentBossData \<noteq> Some (timerKey guildId bossKey ''automiss'')
               \<or> messageIdToTrack currentBossData \<noteq> Some originalMessageId
            then (stale, None)
            else (s, Some (AutoMissFetch guildId bossKey channelIdForAutoMissMessage
                             (orStr (notificationChannelId currentBossData)
                                    (originalChannelId currentBossData)))))"

text \<open>The assignments of the timer body, made to the object the callback holds, up to the
  next \<^verbatim>\<open>await\<close> (the fetch of the channel for the notice).\<close>

definition autoMissBody ::
  "num \<Rightarrow> boss option \<Rightarrow> string \<Rightarrow> string \<Rightarrow> string \<Rightarrow> bot \<Rightarrow> bot \<times> suspended option" where
  "autoMissBody now held guildId bossKey channelIdForAutoMissMessage s =
     (assign held guildId bossKey (autoMissUpdate now) s,
      Some (AutoMissNoticeFetch guildId bossKey channelIdForAutoMissMessage))"

text \<open>After the fetch of the channel of the tracked message: the message is fetched when
  the channel was found and the held object still has a \<^verbatim>\<open>messageIdToTrack\<close>.\<close>

definition autoMissFetched ::
  "io \<Rightarrow> num \<Rightarrow> boss option \<Rightarrow> string \<Rightarrow> string \<Rightarrow> string \<Rightarrow> string option \<Rightarrow> bot
     \<Rightarrow> bot \<times> suspended option" where
  "autoMissFetched w now held guildId bossKey channelIdForAutoMissMessage asked s =
     (if fetchChannel w asked \<noteq> None
         \<and> (case heldBoss held guildId bossKey s of
              None \<Rightarrow> False
            | Some currentBossData \<Rightarrow> truthyStr (messageIdToTrack currentBossData))
      then (s, Some (AutoMissMessage guildId bossKey channelIdForAutoMissMessage))
      else autoMissBody now held guildId bossKey channelIdForAutoMissMessage s)"

text \<open>After the fetch of the tracked message: its buttons are stripped when it was found
  and shows any.  After that edit, resolved or rejected, the body runs.\<close>

definition autoMissMessageFetched ::
  "io \<Rightarrow> num \<Rightarrow> boss option \<Rightarrow> string \<Rightarrow> string \<Rightarrow> string \<Rightarrow> bot \<Rightarrow> bot \<times> suspended option" where
  "autoMissMessageFetched w now held guildId bossKey channelIdForAutoMissMessage s =
     (if buttonsShown w
      then (s, Some (AutoMissEdit guildId bossKey channelIdForAutoMissMessage))
      else autoMissBody now held guildId bossKey channelIdForAutoMissMessage s)"

text \<open>The end of the callback: \<^verbatim>\<open>scheduleBossNotifications\<close>, \<^verbatim>\<open>saveBossData\<close> and the
  \<^verbatim>\<open>finally\<close> block.\<close>

definition autoMissEnd :: "build \<Rightarrow> io \<Rightarrow> num \<Rightarrow> string \<Rightarrow> string \<Rightarrow> bot \<Rightarrow> bot" where
  "autoMissEnd v w now guildId bossKey s =
     autoMissFinally guildId bossKey
       (saveBossData w (scheduleBossNotifications v now guildId bossKey s))"

definition autoMissNoticeFetched ::
  "build \<Rightarrow> io \<Rightarrow> num \<Rightarrow> string \<Rightarrow> string \<Rightarrow> string \<Rightarrow> bot \<Rightarrow> bot \<times> suspended option" where
  "autoMissNoticeFetched v w now guildId bossKey channelIdForAutoMissMessage s =
     (case fetchChannel w (Some channelIdForAutoMissMessage) of
        None \<Rightarrow> (autoMissEnd v w now guildId bossKey s, None)
      | Some channelForMessage \<Rightarrow>
         (s, Some (AutoMissNoticeSend guildId bossKey channelForMessage)))"

definition autoMissNoticeSent ::
  "build \<Rightarrow> io \<Rightarrow> num \<Rightarrow> string \<Rightarrow> string \<Rightarrow> string \<Rightarrow> bot \<Rightarrow> bot \<times> suspended option" where
  "autoMissNoticeSent v w now guildId bossKey channelForMessage s =
     (autoMissEnd v w now guildId bossKey
        (case sendId w of
           None \<Rightarrow> s
         | Some m \<Rightarrow> deliver (Sent channelForMessage AutoMissNotice guildId bossKey) s),
      None)"

subsection \<open>A timer that is due\<close>

text \<open>The runtime takes the timer with handle \<open>h\<close> out of the armed timers and calls its
  closure.\<close>

definition startCallback :: "callback \<Rightarrow> bot \<Rightarrow> bot \<times> suspended option" where
  "startCallback cb s =
     (case cb of
        PreCallback guildId bossKey \<Rightarrow> preTimerFired guildId bossKey s
      | SpawnCallback guildId bossKey \<Rightarrow> spawnTimerFired guildId bossKey s
      | AutoMissCallback guildId bossKey originalMessageId channelId \<Rightarrow>
          autoMissTimerFired guildId bossKey originalMessageId channelId s)"

definition fire :: "nat \<Rightarrow> bot \<Rightarrow> bot \<times> suspended option" where
  "fire h s =
     (case find (\<lambda>t. handle t = h) (timeouts s) of
        None \<Rightarrow> (s, None)
      | Some t \<Rightarrow> startCallback (callback t) (clearTimeout h s))"

subsection \<open>The boss buttons of interactionCreate\<close>

text \<open>\<^verbatim>\<open>String.prototype.split\<close> on a one-character separator.\<close>

fun split :: "char \<Rightarrow> string \<Rightarrow> string list" where
  "split c [] = [[]]"
| "split c (x # xs) =
     (if x = c then [] # split c xs
      else (case split c xs of
              [] \<Rightarrow> [[x]]
            | p # ps \<Rightarrow> (x # p) # ps))"

text \<open>An array element, \<^verbatim>\<open>undefined\<close> (here \<open>None\<close>) beyond the end.\<close>

definition element :: "'a list \<Rightarrow> nat \<Rightarrow> 'a option" where
  "element xs i = (if i < length xs then Some (xs ! i) else None)"

text \<open>The first thing the handler does to a boss it has found: it cancels the auto-miss
  timer, if one is registered.\<close>

definition cancelAutoMiss :: "string \<Rightarrow> string \<Rightarrow> bot \<Rightarrow> bot" where
  "cancelAutoMiss guildId bossKey s =
     (let autoMissTimerKey = timerKey guildId bossKey ''automiss''
      in case map_of (activeTimers s) autoMissTimerKey of
           None \<Rightarrow> s
         | Some autoMissTimer \<Rightarrow>
            modifyBoss guildId bossKey (\<lambda>b. b\<lparr>autoMissJob := None\<rparr>)
              ((clearTimeout autoMissTimer s)
                 \<lparr>activeTimers := AList.delete autoMissTimerKey (activeTimers s)\<rparr>))"

text \<open>
  From \<^verbatim>\<open>const now = new Date().getTime()\<close> to the next \<^verbatim>\<open>await\<close> or to the end of the
  handler.  \<^verbatim>\<open>updateBossAsKilled\<close> looks the boss up by its key; the branches
  \<^verbatim>\<open>miss\<close> and \<^verbatim>\<open>notappeared\<close> and the last statement of the handler assign to the
  object that the handler holds.
\<close>

definition buttonAct ::
  "build \<Rightarrow> io \<Rightarrow> num \<Rightarrow> boss option \<Rightarrow> string option \<Rightarrow> string \<Rightarrow> string \<Rightarrow> bot
     \<Rightarrow> bot \<times> suspended option" where
  "buttonAct v w now held action bossKey guildId s =
     (if action = Some ''dead''
      then (assign held guildId bossKey (\<lambda>b. b\<lparr>messageIdToTrack := None\<rparr>)
              (updateBossAsKilled v w now guildId bossKey now True s),
            None)
      else if action = Some ''miss''
      then (assign held guildId bossKey (missUpdate now) s,
            Some (ButtonReply ''miss'' bossKey guildId))
      else if action = Some ''notappeared''
      then (assign held guildId bossKey (notAppearedUpdate now) s,
            Some (ButtonReply ''notappeared'' bossKey guildId))
      else (assign held guildId bossKey (\<lambda>b. b\<lparr>messageIdToTrack := None\<rparr>) s, None))"

text \<open>
  After \<^verbatim>\<open>await interaction.reply\<close> in the branches \<^verbatim>\<open>miss\<close> and \<^verbatim>\<open>notappeared\<close>.
  The reply is awaited without a handler for its rejection: when it rejects, the handler
  ends there.
\<close>

definition buttonReplied ::
  "build \<Rightarrow> io \<Rightarrow> num \<Rightarrow> boss option \<Rightarrow> string \<Rightarrow> string \<Rightarrow> string \<Rightarrow> bot
     \<Rightarrow> bot \<times> suspended option" where
  "buttonReplied v w now held action bossKey guildId s =
     (if \<not> replyOk w then (s, None)
      else (assign held guildId bossKey (\<lambda>b. b\<lparr>messageIdToTrack := None\<rparr>)
              (saveBossData w
                 (scheduleBossNotifications v now guildId bossKey
                    (clearBossTimers guildId bossKey
                       (deliver (Replied (if action = ''miss'' then ''missed''
                                          else ''did not appear'')) s)))),
            None))"

text \<open>
  The handler from the split of the custom id (after the \<^verbatim>\<open>help_\<close> and, in
  \<^verbatim>\<open>part_000\<close>, the restart and select-menu cases) to its first \<^verbatim>\<open>await\<close>.  The three
  early returns answer with a reply that is not awaited.  The edit that strips the buttons
  is awaited when the message of the interaction shows any; otherwise the handler goes
  straight on.
\<close>

definition bossButton ::
  "build \<Rightarrow> io \<Rightarrow> num \<Rightarrow> string \<Rightarrow> string \<Rightarrow> bot \<Rightarrow> bot \<times> suspended option" where
  "bossButton v w now customId interactionGuildId s =
     (let parts = split CHR ''_'' customId;
          action = element parts 0;
          bossKeyFromId = element parts 1;
          guildIdFromId = element parts 2
      in if guildIdFromId \<noteq> Some interactionGuildId
         then (reply w ''Server identification error.'' s, None)
         else
           case map_of (bossData s) interactionGuildId of
             None \<Rightarrow> (reply w ''Boss data for this server not found.'' s, None)
           | Some guildBosses \<Rightarrow>
              (case bossKeyFromId of
                 None \<Rightarrow> (s, Some ButtonMissing)
               | Some bossKey \<Rightarrow>
                  (case map_of guildBosses bossKey of
                     None \<Rightarrow> (s, Some ButtonMissing)
                   | Some b \<Rightarrow>
                      let s1 = cancelAutoMiss interactionGuildId bossKey s
                      in if buttonsShown w
                         then (s1, Some (ButtonEdit action bossKey interactionGuildId))
                         else buttonAct v w now None action bossKey interactionGuildId s1)))"

text \<open>The custom id that the spawn alert gives a button.\<close>

definition customIdOf :: "string \<Rightarrow> string \<Rightarrow> string \<Rightarrow> string" where
  "customIdOf action bossKey guildId = action @ ''_'' @ bossKey @ ''_'' @ guildId"

subsection \<open>Resuming\<close>

text \<open>
  The rest of an \<^verbatim>\<open>async\<close> function from the place where it waits, on the state found
  when it is resumed, with the answer of the outside world to the awaited call in \<open>w\<close>
  and the reading of the clock in \<open>now\<close>.
\<close>

definition resume ::
  "build \<Rightarrow> io \<Rightarrow> num \<Rightarrow> boss option \<Rightarrow> suspended \<Rightarrow> bot \<Rightarrow> bot \<times> suspended option" where
  "resume v w now held c s =
     (case c of
        PreFetch guildId bossKey asked \<Rightarrow> preFetched w guildId bossKey asked s
      | PreSend guildId bossKey notifyChannel \<Rightarrow> preSent w guildId bossKey notifyChannel s
      | SpawnFetch guildId bossKey asked \<Rightarrow> spawnFetched w guildId bossKey asked s
      | SpawnSend guildId bossKey notifyChannel \<Rightarrow>
          spawnSent v w now guildId bossKey notifyChannel s
      | AutoMissFetch guildId bossKey channelId asked \<Rightarrow>
          autoMissFetched w now held guildId bossKey channelId asked s
      | AutoMissMessage guildId bossKey channelId \<Rightarrow>
          autoMissMessageFetched w now held guildId bossKey channelId s
      | AutoMissEdit guildId bossKey channelId \<Rightarrow>
          autoMissBody now held guildId bossKey channelId s
      | AutoMissNoticeFetch guildId bossKey channelId \<Rightarrow>
          autoMissNoticeFetched v w now guildId bossKey channelId s
      | AutoMissNoticeSend guildId bossKey channelForMessage \<Rightarrow>
          autoMissNoticeSent v w now guildId bossKey channelForMessage s
      | ButtonMissing \<Rightarrow> (reply w ''Information for boss not found.'' s, None)
      | ButtonEdit action bossKey guildId \<Rightarrow> buttonAct v w now held action bossKey guildId s
      | ButtonReply action bossKey guildId \<Rightarrow>
          buttonReplied v w now held action bossKey guildId s)"

text \<open>
  An \<^verbatim>\<open>async\<close> function run to its end with nothing else in between, so that it still
  holds stored objects: every resumption takes the next answer of the outside world and
  the next reading of the clock.  (When the answers run out the function is left waiting.)
\<close>

fun finish :: "build \<Rightarrow> (io \<times> num) list \<Rightarrow> bot \<times> suspended option \<Rightarrow> bot" where
  "finish v answers (s, None) = s"
| "finish v [] (s, Some c) = s"
| "finish v ((w, now) # answers) (s, Some c) = finish v answers (resume v w now None c s)"

subsection \<open>Commands of messageCreate\<close>

text \<open>
  The key of a boss, as \<^verbatim>\<open>addboss\<close>, \<^verbatim>\<open>killed\<close> and the other commands compute it from
  the name they are given: \<^verbatim>\<open>bossName.toLowerCase().replace(/\s+/g, '_')\<close>.  (ASCII
  letters and ASCII white space only.)
\<close>

definition lowerCase :: "char \<Rightarrow> char" where
  "lowerCase c =
     (case map_of (zip ''ABCDEFGHIJKLMNOPQRSTUVWXYZ'' ''abcdefghijklmnopqrstuvwxyz'') c of
        None \<Rightarrow> c
      | Some l \<Rightarrow> l)"

definition whiteSpace :: "char \<Rightarrow> bool" where
  "whiteSpace c = (c \<in> set [CHR '' '', CHR 0x09, CHR 0x0A, CHR 0x0B, CHR 0x0C, CHR 0x0D])"

text \<open>Every run of white space becomes one underscore; \<open>inRun\<close> tells that the
  character before was white space.\<close>

fun underscored :: "bool \<Rightarrow> string \<Rightarrow> string" where
  "underscored inRun [] = []"
| "underscored inRun (c # cs) =
     (if whiteSpace c
      then (if inRun then underscored True cs else CHR ''_'' # underscored True cs)
      else c # underscored False cs)"

definition bossKeyOf :: "string \<Rightarrow> string" where
  "bossKeyOf bossName = underscored False (map lowerCase bossName)"

text \<open>
  Every command other than \<^verbatim>\<open>ping\<close> and \<^verbatim>\<open>help\<close> first makes sure the guild has a
  collection.  The \<^verbatim>\<open>killed\<close> command below receives the key of the boss it names.
\<close>

definition ensureGuild :: "string \<Rightarrow> bot \<Rightarrow> bot" where
  "ensureGuild guildId s =
     (case map_of (bossData s) guildId of
        None \<Rightarrow> s\<lparr>bossData := AList.update guildId [] (bossData s)\<rparr>
      | Some guildBosses \<Rightarrow> s)"

text \<open>The optional time argument of \<^verbatim>\<open>killed\<close>: absent, not a date, or a date.\<close>

datatype time_arg = NoTime | InvalidDate | Date num

datatype verdict = Accepted | NotFound | InvalidTime | FutureKill

definition killedCommand ::
  "build \<Rightarrow> io \<Rightarrow> num \<Rightarrow> string \<Rightarrow> string \<Rightarrow> time_arg \<Rightarrow> bot \<Rightarrow> verdict \<times> bot" where
  "killedCommand v w now guildId bossKey arg s0 =
     (let s = ensureGuild guildId s0;
          accept = (\<lambda>killTimestamp.
             let s1 = updateBossAsKilled v w now guildId bossKey killTimestamp False s
             in (Accepted, case v of Index_js \<Rightarrow> saveBossData w s1 | Part_000 \<Rightarrow> s1))
      in case getBoss s guildId bossKey of
           None \<Rightarrow> (NotFound, reply w ''not found'' s)
         | Some b \<Rightarrow>
            (case arg of
               NoTime \<Rightarrow> accept now
             | InvalidDate \<Rightarrow> (InvalidTime, reply w ''Invalid time format'' s)
             | Date parsedDate \<Rightarrow>
                if v = Index_js \<and> parsedDate > now + 60000
                then (FutureKill, reply w ''Future kill times are not allowed.'' s)
                else accept parsedDate))"

subsection \<open>Start-up: loadBossData and initializeBossTimers\<close>

text \<open>
  The inner \<^verbatim>\<open>for ... in\<close> loop of \<^verbatim>\<open>loadBossData\<close>.  Assigning
  \<^verbatim>\<open>bossObject.notificationJob = null\<close> throws a \<^verbatim>\<open>TypeError\<close> when the entry is
  \<^verbatim>\<open>null\<close>; the result is then \<open>None\<close>.
\<close>

fun loadGuild :: "(string \<times> boss option) list \<Rightarrow> collection \<Rightarrow> collection option" where
  "loadGuild [] guildBossesCollection = Some guildBossesCollection"
| "loadGuild ((bossKey, None) # rest) guildBossesCollection = None"
| "loadGuild ((bossKey, Some bossObject) # rest) guildBossesCollection =
     loadGuild rest
       (AList.update bossKey
          (bossObject\<lparr>notificationJob := None, spawnNotificationJob := None,
                      autoMissJob := None\<rparr>)
          guildBossesCollection)"

text \<open>The outer loop.  \<open>Inl\<close> is a thrown error and carries the state reached when it
  was thrown, with the guilds loaded so far.\<close>

fun loadGuilds :: "loaded \<Rightarrow> bot \<Rightarrow> bot + bot" where
  "loadGuilds [] s = Inr s"
| "loadGuilds ((guildId, entries) # rest) s =
     (case loadGuild entries [] of
        None \<Rightarrow> Inl s
      | Some guildBossesCollection \<Rightarrow>
         loadGuilds rest
           (s\<lparr>bossData := AList.update guildId guildBossesCollection (bossData s)\<rparr>))"

text \<open>The \<^verbatim>\<open>try\<close> block when \<^verbatim>\<open>boss_data.json\<close> exists.\<close>

definition readDataFile :: "bot \<Rightarrow> bot + bot" where
  "readDataFile s =
     (case dataFile s of
        Missing \<Rightarrow> Inr s
      | Unreadable \<Rightarrow> Inl s
      | Unparseable \<Rightarrow> Inl s
      | Json loadedData \<Rightarrow> loadGuilds loadedData (s\<lparr>bossData := []\<rparr>))"

text \<open>The \<^verbatim>\<open>catch\<close> block: \<^verbatim>\<open>client.bossData = new Collection()\<close>.\<close>

definition catchLoad :: "bot + bot \<Rightarrow> bot" where
  "catchLoad r = (case r of Inl s \<Rightarrow> s\<lparr>bossData := []\<rparr> | Inr s \<Rightarrow> s)"

text \<open>
  In \<^verbatim>\<open>part_000\<close> a missing data file is replaced by a copy of the import file and
  \<^verbatim>\<open>loadBossData\<close> calls itself once; the inner call finds the data file and has its
  own \<^verbatim>\<open>try\<close>/\<^verbatim>\<open>catch\<close>.  \<^verbatim>\<open>copyFileSync\<close> throws on an unreadable import file.
\<close>

definition loadBossData :: "build \<Rightarrow> bot \<Rightarrow> bot" where
  "loadBossData v s =
     catchLoad
       (case dataFile s of
          Missing \<Rightarrow>
            (case v of
               Index_js \<Rightarrow> Inr s
             | Part_000 \<Rightarrow>
                (case importFile s of
                   Missing \<Rightarrow> Inr s
                 | Unreadable \<Rightarrow> Inl s
                 | Unparseable \<Rightarrow> Inr (catchLoad (readDataFile (s\<lparr>dataFile := Unparseable\<rparr>)))
                 | Json d \<Rightarrow> Inr (catchLoad (readDataFile (s\<lparr>dataFile := Json d\<rparr>)))))
        | Unreadable \<Rightarrow> readDataFile s
        | Unparseable \<Rightarrow> readDataFile s
        | Json d \<Rightarrow> readDataFile s)"

text \<open>The body of the two nested \<^verbatim>\<open>forEach\<close> loops of \<^verbatim>\<open>initializeBossTimers\<close> for
  one boss.  The second test reads the job fields after the first has scheduled.\<close>

definition initBoss :: "build \<Rightarrow> io \<Rightarrow> num \<Rightarrow> string \<Rightarrow> string \<Rightarrow> bot \<Rightarrow> bot" where
  "initBoss v w now guildId bossKey s =
     (case getBoss s guildId bossKey of
        None \<Rightarrow> s
      | Some b \<Rightarrow>
         let s1 = (case nextSpawnEstimateMin b of
                     None \<Rightarrow> s
                   | Some m \<Rightarrow>
                      if m \<noteq> 0 \<and> m > now
                      then scheduleBossNotifications v now guildId bossKey s
                      else s)
         in case getBoss s1 guildId bossKey of
              None \<Rightarrow> s1
            | Some b1 \<Rightarrow>
               (case messageIdToTrack b1 of
                  None \<Rightarrow> s1
                | Some messageId \<Rightarrow>
                   if messageId \<noteq> [] \<and> spawnNotificationJob b1 = None \<and> autoMissJob b1 = None
                   then (case orStr (notificationChannelId b1) (originalChannelId b1) of
                           None \<Rightarrow> s1
                         | Some channelForAutoMiss \<Rightarrow>
                            if channelForAutoMiss \<noteq> []
                            then scheduleAutoMissTimer v w now guildId bossKey messageId
                                   channelForAutoMiss s1
                            else s1)
                   else s1))"

definition allBossKeys :: "bot \<Rightarrow> (string \<times> string) list" where
  "allBossKeys s =
     concat (map (\<lambda>(guildId, guildBosses). map (\<lambda>(bossKey, b). (guildId, bossKey)) guildBosses)
               (bossData s))"

definition initializeBossTimers :: "build \<Rightarrow> io \<Rightarrow> num \<Rightarrow> bot \<Rightarrow> bot" where
  "initializeBossTimers v w now s =
     foldl (\<lambda>s' (guildId, bossKey). initBoss v w now guildId bossKey s') s (allBossKeys s)"

text \<open>The \<^verbatim>\<open>ready\<close> handler.\<close>

definition ready :: "build \<Rightarrow> io \<Rightarrow> num \<Rightarrow> bot \<Rightarrow> bot" where
  "ready v w now s = initializeBossTimers v w now (loadBossData v s)"

subsection \<open>A fresh process, and the armed timers of a boss\<close>

text \<open>A fresh process: nothing in memory, no timer armed, any two files on disk.\<close>

definition boot :: "file_state \<Rightarrow> file_state \<Rightarrow> bot" where
  "boot f g = \<lparr>bossData = [], activeTimers = [], timeouts = [], nextHandle = 0, outbox = [],
               dataFile = f, importFile = g\<rparr>"

text \<open>The timers armed in the runtime whose closure was made for a boss and a phase.\<close>

datatype phase = Pre | Spawn | AutoMiss

fun phaseOf :: "callback \<Rightarrow> phase" where
  "phaseOf (PreCallback guildId bossKey) = Pre"
| "phaseOf (SpawnCallback guildId bossKey) = Spawn"
| "phaseOf (AutoMissCallback guildId bossKey m c) = AutoMiss"

fun ownerOf :: "callback \<Rightarrow> string \<times> string" where
  "ownerOf (PreCallback guildId bossKey) = (guildId, bossKey)"
| "ownerOf (SpawnCallback guildId bossKey) = (guildId, bossKey)"
| "ownerOf (AutoMissCallback guildId bossKey m c) = (guildId, bossKey)"

definition armed :: "bot \<Rightarrow> string \<Rightarrow> string \<Rightarrow> phase \<Rightarrow> timeout list" where
  "armed s guildId bossKey p =
     filter (\<lambda>t. ownerOf (callback t) = (guildId, bossKey) \<and> phaseOf (callback t) = p)
       (timeouts s)"

text \<open>Two states have the same bosses up to the three runtime job fields.\<close>

definition sameBosses :: "bot \<Rightarrow> bot \<Rightarrow> bool" where
  "sameBosses s s' = (\<forall>guildId bossKey.
      map_option stripJobs (getBoss s' guildId bossKey)
        = map_option stripJobs (getBoss s guildId bossKey))"

subsection \<open>A concrete bot\<close>

text \<open>The boss of the \<^verbatim>\<open>addboss\<close> help text, tracked in guild \<open>1\<close>, and a world in
  which every channel is found and every call succeeds.\<close>

definition queenAnt :: boss where
  "queenAnt = \<lparr>name = ''Queen Ant'', location = ''Ant Nest'',
               minRespawnHours = 22, maxRespawnHours = Some 26,
               lastKilled = None, nextSpawnEstimateMin = None,
               nextSpawnEstimateMax = None, isWindow = False,
               notificationJob = None, spawnNotificationJob = None,
               autoMissJob = None, messageIdToTrack = None,
               notificationChannelId = Some ''7'', originalChannelId = Some ''7''\<rparr>"

definition oneBoss :: "boss \<Rightarrow> bot" where
  "oneBoss b = (boot Missing Missing)\<lparr>bossData := [(''1'', [(''queen'', b)])]\<rparr>"

definition online :: io where
  "online = \<lparr>channelFound = (\<lambda>c. True), sendId = Some ''900'', replyOk = True,
              writeOk = True, buttonsShown = True\<rparr>"

text \<open>The assignments to the estimate fields that the button handler makes for an
  action, and a boss without its job fields and its tracked message.\<close>

definition buttonUpdate :: "string \<Rightarrow> num \<Rightarrow> boss \<Rightarrow> boss" where
  "buttonUpdate action now b =
     (if action = ''dead'' then killedUpdate now b
      else if action = ''miss'' then missUpdate now b
      else if action = ''notappeared'' then notAppearedUpdate now b
      else b)"

definition forget :: "boss \<Rightarrow> boss" where
  "forget b = (stripJobs b)\<lparr>messageIdToTrack := None\<rparr>"

text \<open>A boss whose stored window ends before it starts, as a hand-written data or import
  file can hold it, and the boss killed 22 hours before the epoch, whose window starts at
  timestamp \<open>0\<close>.\<close>

definition inverted :: boss where
  "inverted = queenAnt\<lparr>nextSpawnEstimateMin := Some 7200000,
                          nextSpawnEstimateMax := Some 3600000\<rparr>"

definition atEpoch :: boss where
  "atEpoch = killedUpdate (- 79200000) queenAnt"

text \<open>The boss after a kill at \<open>1000\<close> and a delivered spawn alert: message \<open>900\<close>
  is tracked and the auto-miss timer is registered.\<close>

definition alerted :: boss where
  "alerted = queenAnt\<lparr>nextSpawnEstimateMin := Some 79201000,
                         nextSpawnEstimateMax := Some 93601000,
                         lastKilled := Some 1000,
                         autoMissJob := Some ''1_queen_automiss'',
                         messageIdToTrack := Some ''900''\<rparr>"

subsection \<open>The timer registry and the armed timers\<close>

text \<open>
  The key under which the code registers a timer, by its closure; the name of a phase in a
  timer key; and a property of a state: every armed timer is registered under its key with
  its own \<^verbatim>\<open>Timeout\<close> object, and \<^verbatim>\<open>Timeout\<close> objects are not shared.  (It holds
  in a fresh process and every scheduling call keeps it; a timer callback that deletes its
  key after an \<^verbatim>\<open>await\<close> can break it.)  Last, the bot after a \<^verbatim>\<open>killed\<close> command
  for its one boss at time \<open>1000\<close>.
\<close>

fun keyOf :: "callback \<Rightarrow> string" where
  "keyOf (PreCallback guildId bossKey) = timerKey guildId bossKey ''pre''"
| "keyOf (SpawnCallback guildId bossKey) = timerKey guildId bossKey ''spawn''"
| "keyOf (AutoMissCallback guildId bossKey m c) = timerKey guildId bossKey ''automiss''"

definition registered :: "bot \<Rightarrow> bool" where
  "registered s =
     ((\<forall>t \<in> set (timeouts s).
          map_of (activeTimers s) (keyOf (callback t)) = Some (handle t)
          \<and> handle t < nextHandle s)
      \<and> distinct (map handle (timeouts s)))"

definition phaseName :: "phase \<Rightarrow> string" where
  "phaseName p = (case p of Pre \<Rightarrow> ''pre'' | Spawn \<Rightarrow> ''spawn'' | AutoMiss \<Rightarrow> ''automiss'')"

definition tracked :: bot where
  "tracked = snd (killedCommand Index_js online 1000 ''1'' ''queen'' NoTime (oneBoss queenAnt))"

subsection \<open>The registry without stale entries, and a data file to restore\<close>

text \<open>
  A registry is exact when, besides being registered, every entry of
  \<^verbatim>\<open>client.activeTimers\<close> names a timer that is still armed; this holds as long as no
  timer has fired.  The data file below holds a boss whose window starts five minutes
  after \<open>1000000000\<close> and, in a second guild, the boss with a tracked message.
\<close>

definition exact :: "bot \<Rightarrow> bool" where
  "exact s =
     (registered s
      \<and> (\<forall>key h. map_of (activeTimers s) key = Some h
            \<longrightarrow> (\<exists>t \<in> set (timeouts s). handle t = h \<and> keyOf (callback t) = key)))"

definition soon :: boss where
  "soon = queenAnt\<lparr>lastKilled := Some 921100000,
                     nextSpawnEstimateMin := Some 1000300000,
                     nextSpawnEstimateMax := Some 1014700000\<rparr>"

definition restored :: loaded where
  "restored = [(''1'', [(''queen'', Some soon)]), (''2'', [(''orfen'', Some alerted)])]"



subsection \<open>A response handled on its own, and a boss with a spawn alert\<close>

text \<open>
  A click on a button, handled from the split of the custom id to the end of the handler
  with nothing else in between, in one world \<open>w\<close>.  The clock reads \<open>M\<close> when the
  handler goes on after stripping the buttons (the \<^verbatim>\<open>now\<close> of its branches) and \<open>R\<close>
  when it goes on after its reply (the \<^verbatim>\<open>now\<close> of \<^verbatim>\<open>scheduleBossNotifications\<close>).
\<close>

definition respond :: "build \<Rightarrow> io \<Rightarrow> num \<Rightarrow> num \<Rightarrow> string \<Rightarrow> string \<Rightarrow> bot \<Rightarrow> bot" where
  "respond v w M R customId guildId s =
     finish v [(w, M), (w, R)] (bossButton v w M customId guildId s)"

text \<open>
  The boss of the help text tracked under a key in guild \<open>1\<close>: killed at \<open>1000\<close>;
  the pre-spawn timer (handle \<open>0\<close>) fires 15 minutes before the estimate and its
  callback runs to its end; the spawn timer (handle \<open>1\<close>) fires at the estimate and its
  callback runs to its end, which sends the spawn alert (message \<open>900\<close>) and arms the
  auto-miss timer (handle \<open>2\<close>).
\<close>

definition afterAlert :: "string \<Rightarrow> bot" where
  "afterAlert bossKey =
     (let s0 = (boot Missing Missing)\<lparr>bossData := [(''1'', [(bossKey, queenAnt)])]\<rparr>;
          s1 = snd (killedCommand Index_js online 1000 ''1'' bossKey NoTime s0);
          s2 = finish Index_js [(online, 78301000), (online, 78301000)] (fire 0 s1)
      in finish Index_js [(online, 79201000), (online, 79201000)] (fire 1 s2))"

text \<open>
  The width of the window that the \<^verbatim>\<open>notappeared\<close> branch gives a boss that has no
  end of the window stored: the configured maximum less the configured minimum when that is
  more than nothing (and the maximum is there and not \<open>0\<close>), else one hour.  And the
  end of the window from which the branch counts on: the stored end when there is one (and
  it is not \<open>0\<close>), else the stored start with that width.
\<close>

definition derivedWidth :: "boss \<Rightarrow> num" where
  "derivedWidth b =
     (case maxRespawnHours b of
        None \<Rightarrow> 3600000
      | Some mx \<Rightarrow>
         if mx \<noteq> 0 \<and> minRespawnHours b < mx
         then (mx - minRespawnHours b) * 3600000
         else 3600000)"

definition windowEnd :: "boss \<Rightarrow> num \<Rightarrow> num" where
  "windowEnd b start =
     (case nextSpawnEstimateMax b of
        None \<Rightarrow> start + derivedWidth b
      | Some e \<Rightarrow> if e \<noteq> 0 then e else start + derivedWidth b)"

text \<open>A world in which \<^verbatim>\<open>interaction.reply\<close> rejects.\<close>

definition replyFails :: io where
  "replyFails = online\<lparr>replyOk := False\<rparr>"

subsection \<open>A kill report while the spawn alert is being sent\<close>

text \<open>
  The bot \<open>tracked\<close> goes on: the pre-spawn callback runs to its end; the spawn timer
  (handle \<open>1\<close>) fires at \<open>79201000\<close>, its callback passes the guard, fetches the
  channel and waits for \<^verbatim>\<open>notifyChannel.send\<close> (\<open>alertSending\<close>).  While it waits,
  \<^verbatim>\<open>!killed queen\<close> is handled at \<open>79201100\<close> (\<open>killedMeanwhile\<close>).  Then the send
  resolves and the callback runs to its end (\<open>alertSent\<close>).  An hour later, at
  \<open>82801000\<close>, a second \<^verbatim>\<open>!killed queen\<close> is handled (\<open>killedAgain\<close>).  Last,
  the spawn timer with handle \<open>3\<close>, armed by the first of the two kill reports, is
  due at \<open>158401100\<close>, and its callback runs to its end (\<open>earlyAlert\<close>).
\<close>

definition preDone :: bot where
  "preDone = finish Index_js [(online, 78301000), (online, 78301000)] (fire 0 tracked)"

definition alertSending :: bot where
  "alertSending =
     fst (resume Index_js online 79201000 None (SpawnFetch ''1'' ''queen'' (Some ''7''))
            (fst (fire 1 preDone)))"

definition killedMeanwhile :: bot where
  "killedMeanwhile =
     snd (killedCommand Index_js online 79201100 ''1'' ''queen'' NoTime alertSending)"

definition alertSent :: bot where
  "alertSent =
     fst (resume Index_js online 79201200 None (SpawnSend ''1'' ''queen'' ''7'') killedMeanwhile)"

definition killedAgain :: bot where
  "killedAgain = snd (killedCommand Index_js online 82801000 ''1'' ''queen'' NoTime alertSent)"

definition earlyAlert :: bot where
  "earlyAlert =
     finish Index_js [(online, 158401100), (online, 158401100)] (fire 3 killedAgain)"

section \<open>Properties\<close>

subsection \<open>What leaves the estimates alone\<close>

lemma getBoss_modifyBoss:
  "getBoss (modifyBoss g k f s) g' k' =
     (if g' = g \<and> k' = k then map_option f (getBoss s g k) else getBoss s g' k')"
  by (auto simp: getBoss_def modifyBoss_def map_of_map_entry split: option.splits)

lemma sameBosses_refl: "sameBosses s s"
  by (simp add: sameBosses_def)

lemma sameBosses_trans: "sameBosses s s1 \<Longrightarrow> sameBosses s1 s2 \<Longrightarrow> sameBosses s s2"
  by (simp add: sameBosses_def)

lemma sameBosses_bossData: "bossData s' = bossData s \<Longrightarrow> sameBosses s s'"
  by (simp add: sameBosses_def getBoss_def)

lemma sameBosses_modifyBoss:
  "(\<And>b. stripJobs (f b) = stripJobs b) \<Longrightarrow> sameBosses s (modifyBoss g k f s)"
  by (auto simp: sameBosses_def getBoss_modifyBoss option.map_comp comp_def)

lemma bossData_clearTimerKey: "bossData (clearTimerKey key s) = bossData s"
  by (simp add: clearTimerKey_def clearTimeout_def split: option.splits)

lemma bossData_arm: "bossData (arm key cb d now s) = bossData s"
  by (simp add: arm_def setTimeout_def)

lemma bossData_saveBossData: "bossData (saveBossData w s) = bossData s"
  by (simp add: saveBossData_def)

lemma bossData_deliver: "bossData (deliver d s) = bossData s"
  by (simp add: deliver_def)

lemma bossData_reply: "bossData (reply w t s) = bossData s"
  by (simp add: reply_def deliver_def)

lemma sameBosses_clearBossTimers: "sameBosses s (clearBossTimers g k s)"
  unfolding clearBossTimers_def
  apply (rule sameBosses_trans[OF _ sameBosses_modifyBoss])
   apply (rule sameBosses_bossData)
   apply (simp add: bossData_clearTimerKey)
  apply (simp add: stripJobs_def)
  done

lemma sameBosses_arm: "sameBosses s (arm key cb d now s)"
  by (rule sameBosses_bossData) (simp add: bossData_arm)

lemma sameBosses_armJob:
  "(\<And>b. stripJobs (f b) = stripJobs b) \<Longrightarrow> sameBosses s (modifyBoss g k f (arm key cb d now s))"
  by (rule sameBosses_trans[OF sameBosses_arm sameBosses_modifyBoss])

lemma sameBosses_scheduleBossNotifications:
  "sameBosses s (scheduleBossNotifications v now g k s)"
proof -
  have pre: "sameBosses s1 (modifyBoss g k (\<lambda>b. b\<lparr>notificationJob := Some x\<rparr>) (arm key cb d now s1))"
    for s1 x key cb d
    by (rule sameBosses_armJob) (simp add: stripJobs_def)
  have spawn: "sameBosses s1 (modifyBoss g k (\<lambda>b. b\<lparr>spawnNotificationJob := Some x\<rparr>) (arm key cb d now s1))"
    for s1 x key cb d
    by (rule sameBosses_armJob) (simp add: stripJobs_def)
  note c = sameBosses_clearBossTimers[of s g k]
  show ?thesis
    unfolding scheduleBossNotifications_def Let_def
    by (auto split: option.splits
        intro: sameBosses_refl c sameBosses_trans[OF c pre] sameBosses_trans[OF c spawn]
          sameBosses_trans[OF sameBosses_trans[OF c pre] spawn])
qed

lemma sameBosses_saveBossData: "sameBosses s (saveBossData w s)"
  by (rule sameBosses_bossData) (simp add: bossData_saveBossData)

lemma sameBosses_deliver: "sameBosses s (deliver d s)"
  by (rule sameBosses_bossData) (simp add: bossData_deliver)

lemma sameBosses_reply: "sameBosses s (reply w t s)"
  by (rule sameBosses_bossData) (simp add: bossData_reply)

lemma sameBosses_getBoss:
  "sameBosses s s' \<Longrightarrow> getBoss s g k = Some b \<Longrightarrow>
     \<exists>b'. getBoss s' g k = Some b' \<and> stripJobs b' = stripJobs b"
  unfolding sameBosses_def
  by (metis map_option_eq_Some option.simps(9))

lemma stripJobs_fields:
  assumes "stripJobs b' = stripJobs b"
  shows "lastKilled b' = lastKilled b" "isWindow b' = isWindow b"
    "nextSpawnEstimateMin b' = nextSpawnEstimateMin b"
    "nextSpawnEstimateMax b' = nextSpawnEstimateMax b"
    "messageIdToTrack b' = messageIdToTrack b"
    "minRespawnHours b' = minRespawnHours b" "maxRespawnHours b' = maxRespawnHours b"
proof -
  have "lastKilled (stripJobs b') = lastKilled (stripJobs b)" using assms by simp
  then show "lastKilled b' = lastKilled b" by (simp add: stripJobs_def)
  have "isWindow (stripJobs b') = isWindow (stripJobs b)" using assms by simp
  then show "isWindow b' = isWindow b" by (simp add: stripJobs_def)
  have "nextSpawnEstimateMin (stripJobs b') = nextSpawnEstimateMin (stripJobs b)" using assms by simp
  then show "nextSpawnEstimateMin b' = nextSpawnEstimateMin b" by (simp add: stripJobs_def)
  have "nextSpawnEstimateMax (stripJobs b') = nextSpawnEstimateMax (stripJobs b)" using assms by simp
  then show "nextSpawnEstimateMax b' = nextSpawnEstimateMax b" by (simp add: stripJobs_def)
  have "messageIdToTrack (stripJobs b') = messageIdToTrack (stripJobs b)" using assms by simp
  then show "messageIdToTrack b' = messageIdToTrack b" by (simp add: stripJobs_def)
  have "minRespawnHours (stripJobs b') = minRespawnHours (stripJobs b)" using assms by simp
  then show "minRespawnHours b' = minRespawnHours b" by (simp add: stripJobs_def)
  have "maxRespawnHours (stripJobs b') = maxRespawnHours (stripJobs b)" using assms by simp
  then show "maxRespawnHours b' = maxRespawnHours b" by (simp add: stripJobs_def)
qed

text \<open>After the assignments, the rest of updateBossAsKilled touches job fields only.\<close>

lemma updateBossAsKilled_getBoss:
  assumes "getBoss s g k = Some b"
  shows "\<exists>b'. getBoss (updateBossAsKilled v w now g k t via s) g k = Some b'
           \<and> stripJobs b' = stripJobs (killedUpdate t b)"
proof -
  let ?s1 = "modifyBoss g k (killedUpdate t) s"
  let ?s2 = "if via then reply w ''killed'' ?s1
             else (case sendId w of None \<Rightarrow> ?s1 | Some m \<Rightarrow> deliver (Replied ''killed'') ?s1)"
  have g1: "getBoss ?s1 g k = Some (killedUpdate t b)"
    using assms by (simp add: getBoss_modifyBoss)
  have "sameBosses ?s1 ?s2"
    by (auto split: option.splits intro: sameBosses_reply sameBosses_deliver sameBosses_refl)
  then have "sameBosses ?s1 (saveBossData w (scheduleBossNotifications v now g k (clearBossTimers g k ?s2)))"
    by (blast intro: sameBosses_trans sameBosses_clearBossTimers
        sameBosses_scheduleBossNotifications sameBosses_saveBossData)
  from sameBosses_getBoss[OF this g1] show ?thesis
    using assms by (simp add: updateBossAsKilled_def Let_def)
qed


subsection \<open>Kill reports\<close>

text \<open>
  C3. For a tracked boss with valid interval bounds (minimum above zero, maximum absent
  or at least the minimum) and a kill at timestamp \<open>t\<close>, \<^verbatim>\<open>updateBossAsKilled\<close>
  leaves \<open>lastKilled = t\<close>, \<open>isWindow = false\<close>, \<open>nextSpawnEstimateMin = t + \<close>
  the minimum interval in milliseconds, and \<open>nextSpawnEstimateMax = t + \<close> the maximum
  interval when the maximum exceeds the minimum and \<^verbatim>\<open>null\<close> otherwise; so the start of
  the window lies before its end whenever the end is present.
\<close>

theorem C3_updateBossAsKilled_estimates:
  assumes "getBoss s guildId bossKey = Some b"
    and "minRespawnHours b > 0"
    and "case maxRespawnHours b of None \<Rightarrow> True | Some mx \<Rightarrow> mx \<ge> minRespawnHours b"
  shows "\<exists>b'. getBoss (updateBossAsKilled v w now guildId bossKey t via s) guildId bossKey = Some b'
      \<and> lastKilled b' = Some t
      \<and> isWindow b' = False
      \<and> nextSpawnEstimateMin b' = Some (t + minRespawnHours b * 60 * 60 * 1000)
      \<and> nextSpawnEstimateMax b' =
          (case maxRespawnHours b of
             None \<Rightarrow> None
           | Some mx \<Rightarrow> if mx > minRespawnHours b then Some (t + mx * 60 * 60 * 1000) else None)
      \<and> (\<forall>e. nextSpawnEstimateMax b' = Some e \<longrightarrow> t + minRespawnHours b * 60 * 60 * 1000 < e)"
proof -
  obtain b' where b': "getBoss (updateBossAsKilled v w now guildId bossKey t via s) guildId bossKey = Some b'"
    and st: "stripJobs b' = stripJobs (killedUpdate t b)"
    using updateBossAsKilled_getBoss[OF assms(1)] by blast
  have "lastKilled b' = Some t" "isWindow b' = False"
    "nextSpawnEstimateMin b' = Some (t + minRespawnHours b * 60 * 60 * 1000)"
    using stripJobs_fields[OF st] by (simp_all add: killedUpdate_def)
  moreover have "nextSpawnEstimateMax b' =
          (case maxRespawnHours b of
             None \<Rightarrow> None
           | Some mx \<Rightarrow> if mx > minRespawnHours b then Some (t + mx * 60 * 60 * 1000) else None)"
    using stripJobs_fields(4)[OF st] assms(2,3)
    by (auto simp: killedUpdate_def split: option.splits)
  moreover have "\<forall>e. nextSpawnEstimateMax b' = Some e \<longrightarrow> t + minRespawnHours b * 60 * 60 * 1000 < e"
    using stripJobs_fields(4)[OF st]
    by (auto simp: killedUpdate_def split: option.splits if_splits)
  ultimately show ?thesis using b' by simp
qed

theorem C3_witness:
  "getBoss (oneBoss queenAnt) ''1'' ''queen'' = Some queenAnt
   \<and> minRespawnHours queenAnt > 0
   \<and> (case maxRespawnHours queenAnt of None \<Rightarrow> True | Some mx \<Rightarrow> mx \<ge> minRespawnHours queenAnt)
   \<and> (\<exists>b'. getBoss (updateBossAsKilled Index_js online 5000 ''1'' ''queen'' 1000 False
                      (oneBoss queenAnt)) ''1'' ''queen'' = Some b'
          \<and> lastKilled b' = Some 1000
          \<and> isWindow b' = False
          \<and> nextSpawnEstimateMin b' = Some 79201000
          \<and> nextSpawnEstimateMax b' = Some 93601000)"
proof -
  have h: "getBoss (oneBoss queenAnt) ''1'' ''queen'' = Some queenAnt"
    by (simp add: getBoss_def oneBoss_def boot_def)
  have m: "minRespawnHours queenAnt > 0"
    by (simp add: queenAnt_def)
  have x: "case maxRespawnHours queenAnt of None \<Rightarrow> True | Some mx \<Rightarrow> mx \<ge> minRespawnHours queenAnt"
    by (simp add: queenAnt_def)
  have f: "minRespawnHours queenAnt = 22" "maxRespawnHours queenAnt = Some 26"
    by (simp_all add: queenAnt_def)
  from C3_updateBossAsKilled_estimates [OF h m x, of Index_js online 5000 1000 False]
  have "\<exists>b'. getBoss (updateBossAsKilled Index_js online 5000 ''1'' ''queen'' 1000 False
                      (oneBoss queenAnt)) ''1'' ''queen'' = Some b'
          \<and> lastKilled b' = Some 1000
          \<and> isWindow b' = False
          \<and> nextSpawnEstimateMin b' = Some 79201000
          \<and> nextSpawnEstimateMax b' = Some 93601000"
    unfolding f by simp blast
  with h m x show ?thesis by blast
qed


subsection \<open>The button handler\<close>

lemma forget_clear: "forget (b\<lparr>messageIdToTrack := x\<rparr>) = forget b"
  by (simp add: forget_def stripJobs_def)

lemma sel_stripJobs:
  "minRespawnHours (stripJobs b) = minRespawnHours b"
  "maxRespawnHours (stripJobs b) = maxRespawnHours b"
  "nextSpawnEstimateMin (stripJobs b) = nextSpawnEstimateMin b"
  "nextSpawnEstimateMax (stripJobs b) = nextSpawnEstimateMax b"
  by (simp_all add: stripJobs_def)

lemma stripJobs_killedUpdate_comm:
  "stripJobs (killedUpdate t b1) = killedUpdate t (stripJobs b1)"
  unfolding killedUpdate_def sel_stripJobs
  by (simp add: stripJobs_def)

lemma stripJobs_missUpdate_comm:
  "stripJobs (missUpdate t b1) = missUpdate t (stripJobs b1)"
  unfolding missUpdate_def sel_stripJobs
  by (simp add: stripJobs_def)

lemma stripJobs_notAppearedUpdate_comm:
  "stripJobs (notAppearedUpdate t b1) = notAppearedUpdate t (stripJobs b1)"
  unfolding notAppearedUpdate_def sel_stripJobs Let_def
  by (simp add: stripJobs_def)

lemma stripJobs_buttonUpdate_comm:
  "stripJobs (buttonUpdate a t b1) = buttonUpdate a t (stripJobs b1)"
  by (simp add: buttonUpdate_def stripJobs_killedUpdate_comm stripJobs_missUpdate_comm
      stripJobs_notAppearedUpdate_comm)

text \<open>The first thing the handler does to an existing boss: cancel the auto-miss timer.\<close>

lemma sameBosses_cancelAutoMiss:
  "sameBosses s (case map_of (activeTimers s) key of
                   None \<Rightarrow> s
                 | Some h \<Rightarrow> modifyBoss g k (\<lambda>b. b\<lparr>autoMissJob := None\<rparr>)
                      ((clearTimeout h s)\<lparr>activeTimers := AList.delete key (activeTimers s)\<rparr>))"
proof (cases "map_of (activeTimers s) key")
  case None
  then show ?thesis by (simp add: sameBosses_refl)
next
  case (Some h)
  let ?s' = "(clearTimeout h s)\<lparr>activeTimers := AList.delete key (activeTimers s)\<rparr>"
  have 1: "sameBosses s ?s'"
    by (rule sameBosses_bossData) (simp add: clearTimeout_def)
  have 2: "sameBosses ?s' (modifyBoss g k (\<lambda>b. b\<lparr>autoMissJob := None\<rparr>) ?s')"
    by (rule sameBosses_modifyBoss) (simp add: stripJobs_def)
  show ?thesis
    using sameBosses_trans[OF 1 2] Some by simp
qed

lemma sameBosses_afterReply:
  "sameBosses s (saveBossData w (scheduleBossNotifications v now g k
                   (clearBossTimers g k (deliver d s))))"
  by (rule sameBosses_trans[OF sameBosses_deliver
        sameBosses_trans[OF sameBosses_clearBossTimers
          sameBosses_trans[OF sameBosses_scheduleBossNotifications sameBosses_saveBossData]]])

lemma element_parts:
  "element (a # b # c # rest) 0 = Some a" "element (a # b # c # rest) 1 = Some b"
  "element (a # b # c # rest) 2 = Some c"
  by (simp_all add: element_def)

lemma sameBosses_cancelAutoMiss': "sameBosses s (cancelAutoMiss g k s)"
  unfolding cancelAutoMiss_def Let_def by (rule sameBosses_cancelAutoMiss)

lemma forget_fields:
  assumes "forget b' = forget b"
  shows "lastKilled b' = lastKilled b" "isWindow b' = isWindow b"
    "nextSpawnEstimateMin b' = nextSpawnEstimateMin b"
    "nextSpawnEstimateMax b' = nextSpawnEstimateMax b"
    "minRespawnHours b' = minRespawnHours b" "maxRespawnHours b' = maxRespawnHours b"
proof -
  have "lastKilled (forget b') = lastKilled (forget b)" using assms by simp
  then show "lastKilled b' = lastKilled b" by (simp add: forget_def stripJobs_def)
  have "isWindow (forget b') = isWindow (forget b)" using assms by simp
  then show "isWindow b' = isWindow b" by (simp add: forget_def stripJobs_def)
  have "nextSpawnEstimateMin (forget b') = nextSpawnEstimateMin (forget b)" using assms by simp
  then show "nextSpawnEstimateMin b' = nextSpawnEstimateMin b" by (simp add: forget_def stripJobs_def)
  have "nextSpawnEstimateMax (forget b') = nextSpawnEstimateMax (forget b)" using assms by simp
  then show "nextSpawnEstimateMax b' = nextSpawnEstimateMax b" by (simp add: forget_def stripJobs_def)
  have "minRespawnHours (forget b') = minRespawnHours (forget b)" using assms by simp
  then show "minRespawnHours b' = minRespawnHours b" by (simp add: forget_def stripJobs_def)
  have "maxRespawnHours (forget b') = maxRespawnHours (forget b)" using assms by simp
  then show "maxRespawnHours b' = maxRespawnHours b" by (simp add: forget_def stripJobs_def)
qed

lemma getBoss_oneBoss: "getBoss (oneBoss b) ''1'' ''queen'' = Some b"
  by (simp add: getBoss_def oneBoss_def boot_def)

subsection \<open>The killed command\<close>

lemma ensureGuild_known: "getBoss s g k = Some b \<Longrightarrow> ensureGuild g s = s"
  by (auto simp: ensureGuild_def getBoss_def split: option.splits)

lemma killedCommand_Date_Index_js:
  assumes "getBoss s g k = Some b"
  shows "killedCommand Index_js w now g k (Date t) s =
     (if now + 60000 < t
      then (FutureKill, reply w ''Future kill times are not allowed.'' s)
      else (Accepted, saveBossData w (updateBossAsKilled Index_js w now g k t False s)))"
  unfolding killedCommand_def Let_def ensureGuild_known[OF assms]
  using assms by simp

text \<open>
  C7 (as \<^verbatim>\<open>index.js\<close> has it). The \<^verbatim>\<open>killed\<close> command of \<^verbatim>\<open>index.js\<close>, given a
  tracked boss and a date, rejects the report as a future kill if and only if the date is
  more than 60000 ms after \<open>now\<close>; a rejected report leaves the bosses, the timer
  registry, the armed timers and the data file as they were (the only effect is the reply);
  every report dated at most 60000 ms after \<open>now\<close> is accepted and recorded.
\<close>

theorem C7_future_kill_one_minute:
  assumes "getBoss s guildId bossKey = Some b"
  shows "(fst (killedCommand Index_js w now guildId bossKey (Date t) s) = FutureKill
            \<longleftrightarrow> now + 60000 < t)
      \<and> (now + 60000 < t \<longrightarrow>
            bossData (snd (killedCommand Index_js w now guildId bossKey (Date t) s)) = bossData s
          \<and> activeTimers (snd (killedCommand Index_js w now guildId bossKey (Date t) s))
              = activeTimers s
          \<and> timeouts (snd (killedCommand Index_js w now guildId bossKey (Date t) s)) = timeouts s
          \<and> dataFile (snd (killedCommand Index_js w now guildId bossKey (Date t) s)) = dataFile s)
      \<and> (t \<le> now + 60000 \<longrightarrow>
            fst (killedCommand Index_js w now guildId bossKey (Date t) s) = Accepted
          \<and> (\<exists>b'. getBoss (snd (killedCommand Index_js w now guildId bossKey (Date t) s))
                     guildId bossKey = Some b'
                 \<and> lastKilled b' = Some t))"
proof (cases "now + 60000 < t")
  case True
  then show ?thesis
    unfolding killedCommand_Date_Index_js[OF assms]
    by (simp add: reply_def deliver_def)
next
  case False
  obtain b' where b': "getBoss (updateBossAsKilled Index_js w now guildId bossKey t False s)
                         guildId bossKey = Some b'"
    and st: "stripJobs b' = stripJobs (killedUpdate t b)"
    using updateBossAsKilled_getBoss[OF assms] by blast
  have "lastKilled b' = Some t"
    using stripJobs_fields(1)[OF st] by (simp add: killedUpdate_def)
  moreover have "getBoss (saveBossData w (updateBossAsKilled Index_js w now guildId bossKey t False s))
                         guildId bossKey = Some b'"
    using b' by (simp add: getBoss_def bossData_saveBossData)
  ultimately show ?thesis
    unfolding killedCommand_Date_Index_js[OF assms] using False by simp
qed

theorem C7_witness:
  "getBoss (oneBoss queenAnt) ''1'' ''queen'' = Some queenAnt
   \<and> fst (killedCommand Index_js online 0 ''1'' ''queen'' (Date 60001) (oneBoss queenAnt))
       = FutureKill
   \<and> bossData (snd (killedCommand Index_js online 0 ''1'' ''queen'' (Date 60001)
                      (oneBoss queenAnt))) = bossData (oneBoss queenAnt)
   \<and> timeouts (snd (killedCommand Index_js online 0 ''1'' ''queen'' (Date 60001)
                      (oneBoss queenAnt))) = timeouts (oneBoss queenAnt)
   \<and> fst (killedCommand Index_js online 0 ''1'' ''queen'' (Date 60000) (oneBoss queenAnt))
       = Accepted"
  using C7_future_kill_one_minute [OF getBoss_oneBoss, of online 0 60001]
    C7_future_kill_one_minute [OF getBoss_oneBoss, of online 0 60000]
    getBoss_oneBoss [of queenAnt]
  by simp

text \<open>
  C7 as stated fails for a report dated 30 seconds after \<open>now\<close>: it lies strictly in
  the future and is accepted, and the boss's \<open>lastKilled\<close> becomes that date.
\<close>

theorem C7_counterexample:
  "(0 :: rat) < 30000
   \<and> fst (killedCommand Index_js online 0 ''1'' ''queen'' (Date 30000) (oneBoss queenAnt))
       = Accepted
   \<and> map_option lastKilled
        (getBoss (snd (killedCommand Index_js online 0 ''1'' ''queen'' (Date 30000)
                         (oneBoss queenAnt))) ''1'' ''queen'') = Some (Some 30000)"
  by code_simp

subsection \<open>Loading the data file\<close>

lemma loadGuilds_others:
  "loadGuilds d s0 = Inl s' \<Longrightarrow> s'\<lparr>bossData := []\<rparr> = s0\<lparr>bossData := []\<rparr>"
  "loadGuilds d s0 = Inr s' \<Longrightarrow> s'\<lparr>bossData := []\<rparr> = s0\<lparr>bossData := []\<rparr>"
  by (induction d s0 rule: loadGuilds.induct) (auto split: option.splits)

lemma catchLoad_readDataFile_fails:
  assumes "dataFile s = Unreadable \<or> dataFile s = Unparseable
           \<or> (\<exists>d s'. dataFile s = Json d \<and> loadGuilds d (s\<lparr>bossData := []\<rparr>) = Inl s')"
  shows "catchLoad (readDataFile s) = s\<lparr>bossData := []\<rparr>"
  using assms loadGuilds_others(1)[of _ "s\<lparr>bossData := []\<rparr>"]
  by (auto simp: catchLoad_def readDataFile_def)

text \<open>
  C10. When loading fails (the data file is unreadable, or \<^verbatim>\<open>JSON.parse\<close> rejects it, or
  the loop over the parsed object throws; in \<^verbatim>\<open>part_000\<close> also when the data file is
  missing and copying or loading the import file fails), \<^verbatim>\<open>loadBossData\<close> returns with an
  empty \<open>bossData\<close>: the guilds loaded before the error are gone, and the timer
  registry, the armed timers and the outbox are as before.  Every throwing statement of
  the \<^verbatim>\<open>try\<close> block is an \<open>Inl\<close> of the model, and \<open>catchLoad\<close> turns each into a
  state, so no error leaves \<^verbatim>\<open>loadBossData\<close>.
\<close>

theorem C10_failed_load_leaves_empty_store:
  assumes "dataFile s = Unreadable \<or> dataFile s = Unparseable
           \<or> (\<exists>d s'. dataFile s = Json d \<and> loadGuilds d (s\<lparr>bossData := []\<rparr>) = Inl s')
           \<or> (v = Part_000 \<and> dataFile s = Missing
                \<and> (importFile s = Unreadable \<or> importFile s = Unparseable
                     \<or> (\<exists>d s'. importFile s = Json d
                           \<and> loadGuilds d (s\<lparr>dataFile := Json d, bossData := []\<rparr>) = Inl s')))"
  shows "bossData (loadBossData v s) = []
       \<and> activeTimers (loadBossData v s) = activeTimers s
       \<and> timeouts (loadBossData v s) = timeouts s
       \<and> nextHandle (loadBossData v s) = nextHandle s
       \<and> outbox (loadBossData v s) = outbox s"
proof -
  consider
      (data) "dataFile s = Unreadable \<or> dataFile s = Unparseable
           \<or> (\<exists>d s'. dataFile s = Json d \<and> loadGuilds d (s\<lparr>bossData := []\<rparr>) = Inl s')"
    | (copy) "v = Part_000" "dataFile s = Missing" "importFile s = Unreadable"
    | (garbage) "v = Part_000" "dataFile s = Missing" "importFile s = Unparseable"
    | (import) d s' where "v = Part_000" "dataFile s = Missing" "importFile s = Json d"
        "loadGuilds d (s\<lparr>dataFile := Json d, bossData := []\<rparr>) = Inl s'"
    using assms by blast
  then show ?thesis
  proof cases
    case data
    have "loadBossData v s = catchLoad (readDataFile s)"
      using data by (auto simp: loadBossData_def)
    then show ?thesis
      using catchLoad_readDataFile_fails[OF data] by simp
  next
    case copy
    then show ?thesis by (simp add: loadBossData_def catchLoad_def)
  next
    case garbage
    let ?s1 = "s\<lparr>dataFile := Unparseable\<rparr>"
    have "catchLoad (readDataFile ?s1) = ?s1\<lparr>bossData := []\<rparr>"
      by (rule catchLoad_readDataFile_fails) simp
    then show ?thesis using garbage by (simp add: loadBossData_def catchLoad_def)
  next
    case import
    let ?s1 = "s\<lparr>dataFile := Json d\<rparr>"
    have "catchLoad (readDataFile ?s1) = ?s1\<lparr>bossData := []\<rparr>"
      by (rule catchLoad_readDataFile_fails) (use import(4) in simp)
    then show ?thesis using import(1-3) by (simp add: loadBossData_def catchLoad_def)
  qed
qed

text \<open>A data file whose second guild holds \<^verbatim>\<open>null\<close> in the place of a boss.\<close>

theorem C10_witness:
  "(\<exists>s'. loadGuilds [(''1'', [(''queen'', Some queenAnt)]), (''2'', [(''orfen'', None)])]
            ((boot (Json [(''1'', [(''queen'', Some queenAnt)]), (''2'', [(''orfen'', None)])])
                Missing)\<lparr>bossData := []\<rparr>) = Inl s'
         \<and> bossData s' = [(''1'', [(''queen'', queenAnt)])])
   \<and> bossData (loadBossData Index_js
        (boot (Json [(''1'', [(''queen'', Some queenAnt)]), (''2'', [(''orfen'', None)])])
           Missing)) = []
   \<and> bossData (loadBossData Index_js (boot Unparseable Missing)) = []
   \<and> bossData (loadBossData Part_000 (boot Missing Unreadable)) = []"
proof -
  let ?d = "[(''1'', [(''queen'', Some queenAnt)]), (''2'', [(''orfen'', None)])]"
  let ?s = "boot (Json ?d) Missing"
  have l: "loadGuilds ?d (?s\<lparr>bossData := []\<rparr>)
             = Inl (?s\<lparr>bossData := [(''1'', [(''queen'', queenAnt)])]\<rparr>)"
    by (simp add: queenAnt_def boot_def)
  have f: "dataFile ?s = Json ?d" by (simp add: boot_def)
  have 1: "bossData (loadBossData Index_js ?s) = []"
    using C10_failed_load_leaves_empty_store [of ?s Index_js] f l by blast
  have 2: "bossData (loadBossData Index_js (boot Unparseable Missing)) = []"
    using C10_failed_load_leaves_empty_store [of "boot Unparseable Missing" Index_js]
    by (simp add: boot_def)
  have 3: "bossData (loadBossData Part_000 (boot Missing Unreadable)) = []"
    using C10_failed_load_leaves_empty_store [of "boot Missing Unreadable" Part_000]
    by (simp add: boot_def)
  show ?thesis using l 1 2 3 by simp
qed

section \<open>The timer registry\<close>

lemma keyOf_owner_phase:
  "keyOf cb = timerKey (fst (ownerOf cb)) (snd (ownerOf cb)) (phaseName (phaseOf cb))"
  by (cases cb) (simp_all add: phaseName_def)

subsection \<open>What leaves the timers alone\<close>

lemma timers_modifyBoss [simp]:
  "timeouts (modifyBoss g k f s) = timeouts s"
  "activeTimers (modifyBoss g k f s) = activeTimers s"
  "nextHandle (modifyBoss g k f s) = nextHandle s"
  "outbox (modifyBoss g k f s) = outbox s"
  "dataFile (modifyBoss g k f s) = dataFile s"
  by (simp_all add: modifyBoss_def)

lemma timers_deliver [simp]:
  "timeouts (deliver d s) = timeouts s"
  "activeTimers (deliver d s) = activeTimers s"
  "nextHandle (deliver d s) = nextHandle s"
  by (simp_all add: deliver_def)

lemma timers_reply [simp]:
  "timeouts (reply w x s) = timeouts s"
  "activeTimers (reply w x s) = activeTimers s"
  "nextHandle (reply w x s) = nextHandle s"
  by (simp_all add: reply_def)

lemma timers_saveBossData [simp]:
  "timeouts (saveBossData w s) = timeouts s"
  "activeTimers (saveBossData w s) = activeTimers s"
  "nextHandle (saveBossData w s) = nextHandle s"
  "outbox (saveBossData w s) = outbox s"
  by (simp_all add: saveBossData_def)

lemma registered_same:
  "timeouts s' = timeouts s \<Longrightarrow> activeTimers s' = activeTimers s
     \<Longrightarrow> nextHandle s' = nextHandle s \<Longrightarrow> registered s' = registered s"
  by (simp add: registered_def)

lemma registered_modifyBoss [simp]: "registered (modifyBoss g k f s) = registered s"
  by (rule registered_same) simp_all

lemma registered_deliver [simp]: "registered (deliver d s) = registered s"
  by (rule registered_same) simp_all

lemma registered_reply [simp]: "registered (reply w x s) = registered s"
  by (rule registered_same) simp_all

lemma registered_saveBossData [simp]: "registered (saveBossData w s) = registered s"
  by (rule registered_same) simp_all

lemma registered_bossData [simp]: "registered (s\<lparr>bossData := x\<rparr>) = registered s"
  by (rule registered_same) simp_all

subsection \<open>Clearing and arming\<close>

lemma registered_clearTimeout: "registered s \<Longrightarrow> registered (clearTimeout h s)"
  by (auto simp: registered_def clearTimeout_def distinct_map_filter)

lemma registered_unregistered:
  assumes "registered s" "map_of (activeTimers s) key = None" "t \<in> set (timeouts s)"
  shows "keyOf (callback t) \<noteq> key"
  using assms by (auto simp: registered_def)

lemma registered_delete:
  assumes "registered s" "\<forall>t \<in> set (timeouts s). keyOf (callback t) \<noteq> key"
  shows "registered (s\<lparr>activeTimers := AList.delete key (activeTimers s)\<rparr>)"
  using assms by (auto simp: registered_def delete_conv')

lemma registered_clearTimerKey: "registered s \<Longrightarrow> registered (clearTimerKey key s)"
proof (cases "map_of (activeTimers s) key")
  case None
  assume "registered s"
  then show ?thesis using None by (simp add: clearTimerKey_def)
next
  case (Some h)
  assume r: "registered s"
  have 1: "registered (clearTimeout h s)" using r by (rule registered_clearTimeout)
  have 2: "\<forall>t \<in> set (timeouts (clearTimeout h s)). keyOf (callback t) \<noteq> key"
    using r Some by (auto simp: registered_def clearTimeout_def)
  have "registered ((clearTimeout h s)\<lparr>activeTimers := AList.delete key (activeTimers (clearTimeout h s))\<rparr>)"
    using 1 2 by (rule registered_delete)
  then show ?thesis using Some by (simp add: clearTimerKey_def clearTimeout_def)
qed

lemma unregistered_clearTimerKey:
  "map_of (activeTimers (clearTimerKey key s)) key' =
     (if key' = key then None else map_of (activeTimers s) key')"
  by (auto simp: clearTimerKey_def clearTimeout_def delete_conv' split: option.splits)

lemma nextHandle_clearTimerKey [simp]: "nextHandle (clearTimerKey key s) = nextHandle s"
  by (simp add: clearTimerKey_def clearTimeout_def split: option.splits)

lemma registered_arm:
  assumes "registered s" "map_of (activeTimers s) key = None" "keyOf cb = key"
  shows "registered (arm key cb d now s)"
proof -
  have n: "\<forall>t \<in> set (timeouts s). keyOf (callback t) \<noteq> key"
    using registered_unregistered[OF assms(1,2)] by blast
  show ?thesis
    using assms n
    by (auto simp: registered_def arm_def setTimeout_def update_conv')
qed

lemma activeTimers_arm:
  "map_of (activeTimers (arm key cb d now s)) key' =
     (if key' = key then Some (nextHandle s) else map_of (activeTimers s) key')"
  by (simp add: arm_def setTimeout_def update_conv')

lemma timeouts_arm:
  "timeouts (arm key cb d now s) =
     timeouts s @ [\<lparr>handle = nextHandle s, due = now + timerDelay d, callback = cb\<rparr>]"
  by (simp add: arm_def setTimeout_def)

lemma nextHandle_arm [simp]: "nextHandle (arm key cb d now s) = Suc (nextHandle s)"
  by (simp add: arm_def setTimeout_def)

lemma timerKey_inject [simp]: "timerKey g k a = timerKey g k b \<longleftrightarrow> a = b"
  by (simp add: timerKey_def)

lemma clearBossTimers_unfold:
  "clearBossTimers g k s =
     modifyBoss g k
       (\<lambda>b. b\<lparr>notificationJob := None, spawnNotificationJob := None, autoMissJob := None\<rparr>)
       (clearTimerKey (timerKey g k ''automiss'')
          (clearTimerKey (timerKey g k ''spawn'') (clearTimerKey (timerKey g k ''pre'') s)))"
  by (simp add: clearBossTimers_def)

lemma registered_clearBossTimers: "registered s \<Longrightarrow> registered (clearBossTimers g k s)"
  by (simp add: clearBossTimers_unfold registered_clearTimerKey)

lemma activeTimers_clearBossTimers:
  "map_of (activeTimers (clearBossTimers g k s)) key =
     (if key = timerKey g k ''pre'' \<or> key = timerKey g k ''spawn''
         \<or> key = timerKey g k ''automiss''
      then None else map_of (activeTimers s) key)"
  by (simp add: clearBossTimers_unfold unregistered_clearTimerKey)

lemma nextHandle_clearBossTimers [simp]: "nextHandle (clearBossTimers g k s) = nextHandle s"
  by (simp add: clearBossTimers_unfold)

lemma timeouts_clearTimerKey_subset:
  "set (timeouts (clearTimerKey key s)) \<subseteq> set (timeouts s)"
  by (auto simp: clearTimerKey_def clearTimeout_def split: option.splits)

lemma timeouts_clearBossTimers_subset:
  "set (timeouts (clearBossTimers g k s)) \<subseteq> set (timeouts s)"
  unfolding clearBossTimers_unfold timers_modifyBoss
  using timeouts_clearTimerKey_subset by blast

lemma phaseName_cases:
  "phaseName p = ''pre'' \<or> phaseName p = ''spawn'' \<or> phaseName p = ''automiss''"
  by (cases p) (simp_all add: phaseName_def)

lemma armed_nil_iff:
  "armed s g k p = [] \<longleftrightarrow>
     (\<forall>t \<in> set (timeouts s). \<not> (ownerOf (callback t) = (g, k) \<and> phaseOf (callback t) = p))"
  by (simp add: armed_def filter_empty_conv)

lemma keyOf_of_owner:
  "ownerOf cb = (g, k) \<Longrightarrow> phaseOf cb = p \<Longrightarrow> keyOf cb = timerKey g k (phaseName p)"
  by (simp add: keyOf_owner_phase)

lemma armed_unregistered:
  assumes "registered s" "map_of (activeTimers s) (timerKey g k (phaseName p)) = None"
  shows "armed s g k p = []"
  unfolding armed_nil_iff
proof (intro ballI notI)
  fix t assume t: "t \<in> set (timeouts s)"
    and o: "ownerOf (callback t) = (g, k) \<and> phaseOf (callback t) = p"
  have "keyOf (callback t) = timerKey g k (phaseName p)"
    using o by (simp add: keyOf_of_owner)
  with registered_unregistered[OF assms t] show False by simp
qed

lemma armed_clearBossTimers:
  assumes "registered s"
  shows "armed (clearBossTimers g k s) g k p = []"
proof (rule armed_unregistered)
  show "registered (clearBossTimers g k s)" using assms by (rule registered_clearBossTimers)
  show "map_of (activeTimers (clearBossTimers g k s)) (timerKey g k (phaseName p)) = None"
    using phaseName_cases[of p] by (auto simp: activeTimers_clearBossTimers)
qed

text \<open>At most one armed timer for a boss and a phase.\<close>

lemma filter_same_handle:
  assumes "distinct (map handle ts)" "\<forall>t \<in> set ts. P t \<longrightarrow> handle t = h"
  shows "length (filter P ts) \<le> 1"
  using assms
proof (induction ts)
  case Nil
  then show ?case by simp
next
  case (Cons a ts)
  show ?case
  proof (cases "P a")
    case True
    have "filter P ts = []"
      unfolding filter_empty_conv
    proof (intro ballI notI)
      fix t assume t: "t \<in> set ts" and "P t"
      then have "handle t = h" using Cons.prems(2) by simp
      moreover have "handle a = h" using True Cons.prems(2) by simp
      ultimately show False using Cons.prems(1) t by (auto simp: image_iff)
    qed
    then show ?thesis using True by simp
  next
    case False
    then show ?thesis using Cons by simp
  qed
qed

lemma armed_at_most_one:
  assumes "registered s"
  shows "length (armed s g k p) \<le> 1"
proof (cases "map_of (activeTimers s) (timerKey g k (phaseName p))")
  case None
  then show ?thesis using armed_unregistered[OF assms] by simp
next
  case (Some h)
  show ?thesis
    unfolding armed_def
  proof (rule filter_same_handle)
    show "distinct (map handle (timeouts s))" using assms by (simp add: registered_def)
    show "\<forall>t\<in>set (timeouts s).
       ownerOf (callback t) = (g, k) \<and> phaseOf (callback t) = p \<longrightarrow> handle t = h"
    proof (intro ballI impI)
      fix t assume t: "t \<in> set (timeouts s)"
        and o: "ownerOf (callback t) = (g, k) \<and> phaseOf (callback t) = p"
      have "keyOf (callback t) = timerKey g k (phaseName p)"
        using o by (simp add: keyOf_of_owner)
      then show "handle t = h" using assms t Some by (auto simp: registered_def)
    qed
  qed
qed

lemma scheduleBossNotifications_eq:
  assumes "getBoss s g k = Some b" "nextSpawnEstimateMin b = Some m" "m \<noteq> 0"
  shows "scheduleBossNotifications v now g k s =
     (let s1 = clearBossTimers g k s;
          s2 = (if m - PRE_SPAWN_NOTIFICATION_MINUTES v * 60 * 1000 > now
                then modifyBoss g k (\<lambda>b. b\<lparr>notificationJob := Some (timerKey g k ''pre'')\<rparr>)
                       (arm (timerKey g k ''pre'') (PreCallback g k)
                          (m - PRE_SPAWN_NOTIFICATION_MINUTES v * 60 * 1000 - now) now s1)
                else s1)
      in if m > now
         then modifyBoss g k (\<lambda>b. b\<lparr>spawnNotificationJob := Some (timerKey g k ''spawn'')\<rparr>)
                (arm (timerKey g k ''spawn'') (SpawnCallback g k) (m - now) now s2)
         else s2)"
  using assms by (simp add: scheduleBossNotifications_def Let_def)

lemma scheduleBossNotifications_noop:
  assumes "getBoss s g k = None
           \<or> (\<exists>b. getBoss s g k = Some b
                 \<and> (nextSpawnEstimateMin b = None \<or> nextSpawnEstimateMin b = Some 0))"
  shows "scheduleBossNotifications v now g k s = s"
  using assms by (auto simp: scheduleBossNotifications_def)

lemma schedule_cases:
  obtains (noop) "scheduleBossNotifications v now g k s = s"
  | (sched) b m where "getBoss s g k = Some b" "nextSpawnEstimateMin b = Some m" "m \<noteq> 0"
proof (cases "getBoss s g k")
  case None
  then show ?thesis using noop scheduleBossNotifications_noop by blast
next
  case (Some b)
  show ?thesis
  proof (cases "nextSpawnEstimateMin b")
    case None
    then show ?thesis using noop scheduleBossNotifications_noop Some by blast
  next
    case (Some m)
    show ?thesis
    proof (cases "m = 0")
      case True
      then show ?thesis
        using noop scheduleBossNotifications_noop \<open>getBoss s g k = Some b\<close> Some by blast
    next
      case False
      then show ?thesis using sched \<open>getBoss s g k = Some b\<close> Some by blast
    qed
  qed
qed

lemma registered_armPre:
  assumes "registered s1" "map_of (activeTimers s1) (timerKey g k ''pre'') = None"
  shows "registered (modifyBoss g k f (arm (timerKey g k ''pre'') (PreCallback g k) d now s1))"
  using registered_arm[OF assms, of "PreCallback g k" d now] by simp

lemma registered_armSpawn:
  assumes "registered s1" "map_of (activeTimers s1) (timerKey g k ''spawn'') = None"
  shows "registered (modifyBoss g k f (arm (timerKey g k ''spawn'') (SpawnCallback g k) d now s1))"
  using registered_arm[OF assms, of "SpawnCallback g k" d now] by simp

lemma registered_scheduleBossNotifications:
  assumes "registered s"
  shows "registered (scheduleBossNotifications v now g k s)"
proof (cases rule: schedule_cases[of v now g k s])
  case noop
  then show ?thesis using assms by simp
next
  case (sched b m)
  let ?s1 = "clearBossTimers g k s"
  let ?s2 = "modifyBoss g k (\<lambda>b. b\<lparr>notificationJob := Some (timerKey g k ''pre'')\<rparr>)
                       (arm (timerKey g k ''pre'') (PreCallback g k)
                          (m - PRE_SPAWN_NOTIFICATION_MINUTES v * 60 * 1000 - now) now ?s1)"
  have r1: "registered ?s1" using assms by (rule registered_clearBossTimers)
  have u1: "map_of (activeTimers ?s1) (timerKey g k ''pre'') = None"
           "map_of (activeTimers ?s1) (timerKey g k ''spawn'') = None"
    by (simp_all add: activeTimers_clearBossTimers)
  have r2: "registered ?s2" using r1 u1(1) by (rule registered_armPre)
  have u2: "map_of (activeTimers ?s2) (timerKey g k ''spawn'') = None"
    using u1(2) by (simp add: activeTimers_arm)
  have r3: "registered (modifyBoss g k f (arm (timerKey g k ''spawn'') (SpawnCallback g k) d now ?s1))"
    for f d using r1 u1(2) by (rule registered_armSpawn)
  have r4: "registered (modifyBoss g k f (arm (timerKey g k ''spawn'') (SpawnCallback g k) d now ?s2))"
    for f d using r2 u2 by (rule registered_armSpawn)
  show ?thesis
    unfolding scheduleBossNotifications_eq[OF sched] Let_def
    using r1 r2 r3 r4 by simp
qed

text \<open>The timers and the job fields after a scheduling call that gets past its guards.\<close>

lemma timeouts_scheduleBossNotifications:
  assumes "getBoss s g k = Some b" "nextSpawnEstimateMin b = Some m" "m \<noteq> 0"
  shows "timeouts (scheduleBossNotifications v now g k s) =
     timeouts (clearBossTimers g k s)
     @ (if m - PRE_SPAWN_NOTIFICATION_MINUTES v * 60 * 1000 > now
        then [\<lparr>handle = nextHandle s,
               due = now + timerDelay (m - PRE_SPAWN_NOTIFICATION_MINUTES v * 60 * 1000 - now),
               callback = PreCallback g k\<rparr>]
        else [])
     @ (if m > now
        then [\<lparr>handle = (if m - PRE_SPAWN_NOTIFICATION_MINUTES v * 60 * 1000 > now
                         then Suc (nextHandle s) else nextHandle s),
               due = now + timerDelay (m - now), callback = SpawnCallback g k\<rparr>]
        else [])"
  unfolding scheduleBossNotifications_eq[OF assms] Let_def
  by (simp add: timeouts_arm)

lemma nextHandle_scheduleBossNotifications:
  "nextHandle s \<le> nextHandle (scheduleBossNotifications v now g k s)"
proof (cases rule: schedule_cases[of v now g k s])
  case noop
  then show ?thesis by simp
next
  case (sched b m)
  show ?thesis
    unfolding scheduleBossNotifications_eq[OF sched] Let_def by simp
qed

lemma armed_timeouts: "timeouts s' = timeouts s \<Longrightarrow> armed s' g k p = armed s g k p"
  by (simp add: armed_def)

lemma armed_scheduleBossNotifications:
  assumes "registered s" "getBoss s g k = Some b" "nextSpawnEstimateMin b = Some m" "m \<noteq> 0"
  shows "armed (scheduleBossNotifications v now g k s) g k Pre =
           (if m - PRE_SPAWN_NOTIFICATION_MINUTES v * 60 * 1000 > now
            then [\<lparr>handle = nextHandle s,
                   due = now + timerDelay (m - PRE_SPAWN_NOTIFICATION_MINUTES v * 60 * 1000 - now),
                   callback = PreCallback g k\<rparr>]
            else [])"
    and "armed (scheduleBossNotifications v now g k s) g k Spawn =
           (if m > now
            then [\<lparr>handle = (if m - PRE_SPAWN_NOTIFICATION_MINUTES v * 60 * 1000 > now
                             then Suc (nextHandle s) else nextHandle s),
                   due = now + timerDelay (m - now), callback = SpawnCallback g k\<rparr>]
            else [])"
    and "armed (scheduleBossNotifications v now g k s) g k AutoMiss = []"
proof -
  have c: "filter (\<lambda>t. ownerOf (callback t) = (g, k) \<and> phaseOf (callback t) = p)
             (timeouts (clearBossTimers g k s)) = []" for p
    using armed_clearBossTimers[OF assms(1), of g k p] by (simp add: armed_def)
  show "armed (scheduleBossNotifications v now g k s) g k Pre =
           (if m - PRE_SPAWN_NOTIFICATION_MINUTES v * 60 * 1000 > now
            then [\<lparr>handle = nextHandle s,
                   due = now + timerDelay (m - PRE_SPAWN_NOTIFICATION_MINUTES v * 60 * 1000 - now),
                   callback = PreCallback g k\<rparr>]
            else [])"
    unfolding armed_def timeouts_scheduleBossNotifications[OF assms(2-4)]
    by (simp add: c)
  show "armed (scheduleBossNotifications v now g k s) g k Spawn =
           (if m > now
            then [\<lparr>handle = (if m - PRE_SPAWN_NOTIFICATION_MINUTES v * 60 * 1000 > now
                             then Suc (nextHandle s) else nextHandle s),
                   due = now + timerDelay (m - now), callback = SpawnCallback g k\<rparr>]
            else [])"
    unfolding armed_def timeouts_scheduleBossNotifications[OF assms(2-4)]
    by (simp add: c)
  show "armed (scheduleBossNotifications v now g k s) g k AutoMiss = []"
    unfolding armed_def timeouts_scheduleBossNotifications[OF assms(2-4)]
    by (simp add: c)
qed

lemma getBoss_clearTimerKey [simp]: "getBoss (clearTimerKey a s) g k = getBoss s g k"
  by (simp add: getBoss_def bossData_clearTimerKey)

lemma getBoss_clearBossTimers:
  "getBoss (clearBossTimers g k s) g' k' =
     (if g' = g \<and> k' = k
      then map_option (\<lambda>b. b\<lparr>notificationJob := None, spawnNotificationJob := None,
                               autoMissJob := None\<rparr>) (getBoss s g k)
      else getBoss s g' k')"
  by (simp add: clearBossTimers_unfold getBoss_modifyBoss)

lemma getBoss_arm [simp]: "getBoss (arm key cb d now s) g k = getBoss s g k"
  by (simp add: getBoss_def bossData_arm)

lemma getBoss_scheduleBossNotifications:
  assumes "getBoss s g k = Some b" "nextSpawnEstimateMin b = Some m" "m \<noteq> 0"
  shows "getBoss (scheduleBossNotifications v now g k s) g k =
     Some (b\<lparr>notificationJob :=
               (if m - PRE_SPAWN_NOTIFICATION_MINUTES v * 60 * 1000 > now
                then Some (timerKey g k ''pre'') else None),
             spawnNotificationJob := (if m > now then Some (timerKey g k ''spawn'') else None),
             autoMissJob := None\<rparr>)"
  unfolding scheduleBossNotifications_eq[OF assms] Let_def
  using assms(1) by (simp add: getBoss_modifyBoss getBoss_clearBossTimers)

lemma getBoss_scheduleBossNotifications_other:
  assumes "(g', k') \<noteq> (g, k)"
  shows "getBoss (scheduleBossNotifications v now g k s) g' k' = getBoss s g' k'"
proof (cases rule: schedule_cases[of v now g k s])
  case noop
  then show ?thesis by simp
next
  case (sched b m)
  show ?thesis
    unfolding scheduleBossNotifications_eq[OF sched] Let_def
    using assms by (auto simp: getBoss_modifyBoss getBoss_clearBossTimers)
qed

lemma registered_scheduleAutoMissTimer:
  assumes "registered s"
  shows "registered (scheduleAutoMissTimer v w now g k mid chan s)"
proof -
  let ?s1 = "clearTimerKey (timerKey g k ''automiss'') s"
  have r1: "registered ?s1" using assms by (rule registered_clearTimerKey)
  have u1: "map_of (activeTimers ?s1) (timerKey g k ''automiss'') = None"
    by (simp add: unregistered_clearTimerKey)
  have r2: "registered (arm (timerKey g k ''automiss'') (AutoMissCallback g k mid chan) d now ?s1)"
    for d by (rule registered_arm[OF r1 u1]) simp
  show ?thesis
    unfolding scheduleAutoMissTimer_def Let_def
    using r1 r2 by (cases v; cases "getBoss ?s1 g k") simp_all
qed

lemma registered_ensureGuild [simp]: "registered (ensureGuild g s) = registered s"
  by (simp add: ensureGuild_def split: option.splits)

lemma registered_foldl:
  assumes "\<And>s x. registered s \<Longrightarrow> registered (f s x)" "registered s"
  shows "registered (foldl f s xs)"
  using assms(2) by (induction xs arbitrary: s) (simp_all add: assms(1))


lemma timers_loadGuilds:
  "loadGuilds d s0 = r \<Longrightarrow>
     (case r of Inl s' \<Rightarrow> s' | Inr s' \<Rightarrow> s')\<lparr>bossData := []\<rparr> = s0\<lparr>bossData := []\<rparr>"
  using loadGuilds_others[of d s0] by (cases r) simp_all

lemma catchLoad_readDataFile_timers:
  "timeouts (catchLoad (readDataFile s)) = timeouts s
   \<and> activeTimers (catchLoad (readDataFile s)) = activeTimers s
   \<and> nextHandle (catchLoad (readDataFile s)) = nextHandle s"
proof (cases "dataFile s")
  case (Json d)
  let ?r = "loadGuilds d (s\<lparr>bossData := []\<rparr>)"
  let ?s' = "case ?r of Inl s' \<Rightarrow> s' | Inr s' \<Rightarrow> s'"
  have e: "?s'\<lparr>bossData := []\<rparr> = s\<lparr>bossData := []\<rparr>"
    using timers_loadGuilds[OF refl, of d "s\<lparr>bossData := []\<rparr>"] by simp
  have "timeouts (?s'\<lparr>bossData := []\<rparr>) = timeouts s
     \<and> activeTimers (?s'\<lparr>bossData := []\<rparr>) = activeTimers s
     \<and> nextHandle (?s'\<lparr>bossData := []\<rparr>) = nextHandle s"
    unfolding e by simp
  then show ?thesis
    using Json by (cases ?r) (simp_all add: catchLoad_def readDataFile_def)
qed (simp_all add: catchLoad_def readDataFile_def)

lemma registered_catchLoad_readDataFile:
  "registered (catchLoad (readDataFile s)) = registered s"
  by (rule registered_same) (simp_all add: catchLoad_readDataFile_timers)

lemma registered_dataFile [simp]: "registered (s\<lparr>dataFile := x\<rparr>) = registered s"
  by (rule registered_same) simp_all

lemma catchLoad_simps [simp]:
  "catchLoad (Inr s) = s" "catchLoad (Inl s) = s\<lparr>bossData := []\<rparr>"
  by (simp_all add: catchLoad_def)

lemma registered_loadBossData: "registered (loadBossData v s) = registered s"
proof (cases "dataFile s")
  case Missing
  show ?thesis
  proof (cases v)
    case Index_js
    then show ?thesis using Missing by (simp add: loadBossData_def)
  next
    case Part_000
    show ?thesis
      using Missing Part_000
      by (cases "importFile s")
         (simp_all add: loadBossData_def registered_catchLoad_readDataFile)
  qed
next
  case Unreadable
  then show ?thesis by (simp add: loadBossData_def registered_catchLoad_readDataFile)
next
  case Unparseable
  then show ?thesis by (simp add: loadBossData_def registered_catchLoad_readDataFile)
next
  case (Json d)
  then show ?thesis by (simp add: loadBossData_def registered_catchLoad_readDataFile)
qed

lemma registered_initBoss:
  assumes "registered s"
  shows "registered (initBoss v w now g k s)"
proof -
  have 1: "registered (scheduleBossNotifications v now g k s)"
    using assms by (rule registered_scheduleBossNotifications)
  have 2: "registered (scheduleAutoMissTimer v w now g k mid ch s')" if "registered s'"
    for mid ch s' using that by (rule registered_scheduleAutoMissTimer)
  show ?thesis
    unfolding initBoss_def Let_def
    using assms 1 2 by (simp split: option.splits)
qed

lemma min_tracked:
  "map_option nextSpawnEstimateMin (getBoss tracked ''1'' ''queen'') = Some (Some 79201000)"
  unfolding tracked_def by code_simp

lemma min_scheduleBossNotifications:
  assumes "map_option nextSpawnEstimateMin (getBoss s g k) = Some (Some m)" "m \<noteq> 0"
  shows "map_option nextSpawnEstimateMin (getBoss (scheduleBossNotifications v now g k s) g k)
           = Some (Some m)"
proof -
  obtain b where b: "getBoss s g k = Some b" "nextSpawnEstimateMin b = Some m"
    using assms(1) by (cases "getBoss s g k") auto
  show ?thesis
    unfolding getBoss_scheduleBossNotifications[OF b assms(2)] using b(2) by simp
qed

lemma armed_twice:
  assumes r: "registered s"
    and m: "map_option nextSpawnEstimateMin (getBoss s g k) = Some (Some m)" "m \<noteq> 0"
  shows "armed (scheduleBossNotifications v now2 g k (scheduleBossNotifications v now1 g k s)) g k Pre
           = (if m - PRE_SPAWN_NOTIFICATION_MINUTES v * 60 * 1000 > now2
              then [\<lparr>handle = nextHandle (scheduleBossNotifications v now1 g k s),
                     due = now2 + timerDelay (m - PRE_SPAWN_NOTIFICATION_MINUTES v * 60 * 1000 - now2),
                     callback = PreCallback g k\<rparr>]
              else [])"
    and "armed (scheduleBossNotifications v now2 g k (scheduleBossNotifications v now1 g k s)) g k Spawn
           = (if m > now2
              then [\<lparr>handle = (if m - PRE_SPAWN_NOTIFICATION_MINUTES v * 60 * 1000 > now2
                               then Suc (nextHandle (scheduleBossNotifications v now1 g k s))
                               else nextHandle (scheduleBossNotifications v now1 g k s)),
                     due = now2 + timerDelay (m - now2), callback = SpawnCallback g k\<rparr>]
              else [])"
    and "armed (scheduleBossNotifications v now2 g k (scheduleBossNotifications v now1 g k s)) g k AutoMiss
           = []"
proof -
  let ?s1 = "scheduleBossNotifications v now1 g k s"
  have r1: "registered ?s1" using r by (rule registered_scheduleBossNotifications)
  obtain b1 where b1: "getBoss ?s1 g k = Some b1" "nextSpawnEstimateMin b1 = Some m"
    using min_scheduleBossNotifications[OF m, of v now1] by (cases "getBoss ?s1 g k") auto
  note a = armed_scheduleBossNotifications[OF r1 b1 m(2), of v now2]
  show "armed (scheduleBossNotifications v now2 g k ?s1) g k Pre
           = (if m - PRE_SPAWN_NOTIFICATION_MINUTES v * 60 * 1000 > now2
              then [\<lparr>handle = nextHandle ?s1,
                     due = now2 + timerDelay (m - PRE_SPAWN_NOTIFICATION_MINUTES v * 60 * 1000 - now2),
                     callback = PreCallback g k\<rparr>]
              else [])" by (rule a(1))
  show "armed (scheduleBossNotifications v now2 g k ?s1) g k Spawn
           = (if m > now2
              then [\<lparr>handle = (if m - PRE_SPAWN_NOTIFICATION_MINUTES v * 60 * 1000 > now2
                               then Suc (nextHandle ?s1) else nextHandle ?s1),
                     due = now2 + timerDelay (m - now2), callback = SpawnCallback g k\<rparr>]
              else [])" by (rule a(2))
  show "armed (scheduleBossNotifications v now2 g k ?s1) g k AutoMiss = []" by (rule a(3))
qed

lemma map_entry_id:
  assumes "\<And>v. map_of xs k = Some v \<Longrightarrow> f v = v"
  shows "AList.map_entry k f xs = xs"
  using assms
proof (induction xs)
  case Nil
  then show ?case by simp
next
  case (Cons a xs)
  obtain k' v' where a: "a = (k', v')" by (cases a)
  show ?case
  proof (cases "k' = k")
    case True
    then show ?thesis using Cons.prems[of v'] a by simp
  next
    case False
    have "AList.map_entry k f xs = xs"
      by (rule Cons.IH) (use Cons.prems a False in simp)
    then show ?thesis using a False by simp
  qed
qed

lemma modifyBoss_id:
  assumes "\<And>b. getBoss s g k = Some b \<Longrightarrow> f b = b"
  shows "modifyBoss g k f s = s"
proof -
  have "AList.map_entry g (AList.map_entry k f) (bossData s) = bossData s"
  proof (rule map_entry_id)
    fix gb assume gb: "map_of (bossData s) g = Some gb"
    show "AList.map_entry k f gb = gb"
    proof (rule map_entry_id)
      fix b assume "map_of gb k = Some b"
      then have "getBoss s g k = Some b" using gb by (simp add: getBoss_def)
      then show "f b = b" by (rule assms)
    qed
  qed
  then show ?thesis by (simp add: modifyBoss_def)
qed

lemma handle_clearTimerKey:
  assumes "map_of (activeTimers s) key = Some h"
  shows "h \<notin> handle ` set (timeouts (clearTimerKey key s))"
  using assms by (auto simp: clearTimerKey_def clearTimeout_def)

lemma handles_clearTimerKey_subset:
  "handle ` set (timeouts (clearTimerKey key s)) \<subseteq> handle ` set (timeouts s)"
  using timeouts_clearTimerKey_subset[of key s] by blast

lemma handle_clearBossTimers:
  assumes "map_of (activeTimers s) (timerKey g k (phaseName p)) = Some h"
  shows "h \<notin> handle ` set (timeouts (clearBossTimers g k s))"
proof -
  let ?s1 = "clearTimerKey (timerKey g k ''pre'') s"
  let ?s2 = "clearTimerKey (timerKey g k ''spawn'') ?s1"
  let ?s3 = "clearTimerKey (timerKey g k ''automiss'') ?s2"
  have t: "timeouts (clearBossTimers g k s) = timeouts ?s3"
    by (simp add: clearBossTimers_unfold)
  have sub32: "handle ` set (timeouts ?s3) \<subseteq> handle ` set (timeouts ?s2)"
    by (rule handles_clearTimerKey_subset)
  have sub21: "handle ` set (timeouts ?s2) \<subseteq> handle ` set (timeouts ?s1)"
    by (rule handles_clearTimerKey_subset)
  show ?thesis
  proof (cases p)
    case Pre
    then have "h \<notin> handle ` set (timeouts ?s1)"
      using assms by (simp add: phaseName_def handle_clearTimerKey)
    then show ?thesis unfolding t using sub32 sub21 by blast
  next
    case Spawn
    then have "map_of (activeTimers ?s1) (timerKey g k ''spawn'') = Some h"
      using assms by (simp add: phaseName_def unregistered_clearTimerKey)
    then have "h \<notin> handle ` set (timeouts ?s2)" by (rule handle_clearTimerKey)
    then show ?thesis unfolding t using sub32 by blast
  next
    case AutoMiss
    then have "map_of (activeTimers ?s2) (timerKey g k ''automiss'') = Some h"
      using assms by (simp add: phaseName_def unregistered_clearTimerKey)
    then have "h \<notin> handle ` set (timeouts ?s3)" by (rule handle_clearTimerKey)
    then show ?thesis unfolding t .
  qed
qed

section \<open>Start-up reconciliation\<close>

subsection \<open>Timer keys of different bosses\<close>

lemma append_sep_eq:
  assumes "c \<notin> set xs" "c \<notin> set ys" "xs @ c # r = ys @ c # r'"
  shows "xs = ys \<and> r = r'"
  using assms
proof (induction xs arbitrary: ys)
  case Nil
  then show ?case by (cases ys) auto
next
  case (Cons a xs)
  then show ?case by (cases ys) auto
qed

lemma phaseName_last:
  "last (phaseName p) = (case p of Pre \<Rightarrow> CHR ''e'' | Spawn \<Rightarrow> CHR ''n'' | AutoMiss \<Rightarrow> CHR ''s'')"
  by (cases p) (simp_all add: phaseName_def)

lemma phaseName_inject: "phaseName p = phaseName q \<longleftrightarrow> p = q"
  by (cases p; cases q) (simp_all add: phaseName_def)

lemma phaseName_nonempty: "phaseName p \<noteq> []"
  by (cases p) (simp_all add: phaseName_def)

lemma phaseName_length_cases:
  "length (phaseName p) = (case p of Pre \<Rightarrow> 3 | Spawn \<Rightarrow> 5 | AutoMiss \<Rightarrow> 8)"
  by (cases p) (simp_all add: phaseName_def)

lemma tail_eq:
  assumes "k @ CHR ''_'' # phaseName p = k' @ CHR ''_'' # phaseName q"
  shows "k = k' \<and> p = q"
proof -
  have "last (k @ CHR ''_'' # phaseName p) = last (phaseName p)"
    using phaseName_nonempty[of p] by simp
  moreover have "last (k' @ CHR ''_'' # phaseName q) = last (phaseName q)"
    using phaseName_nonempty[of q] by simp
  ultimately have "last (phaseName p) = last (phaseName q)" using assms by simp
  then have pq: "p = q" unfolding phaseName_last by (cases p; cases q) simp_all
  then have "k @ (CHR ''_'' # phaseName p) = k' @ (CHR ''_'' # phaseName p)" using assms by simp
  then have "k = k'" by simp
  then show ?thesis using pq by simp
qed

lemma timerKey_eq:
  assumes "CHR ''_'' \<notin> set g" "CHR ''_'' \<notin> set g'"
    and "timerKey g k (phaseName p) = timerKey g' k' (phaseName q)"
  shows "g = g' \<and> k = k' \<and> p = q"
proof -
  have "g @ CHR ''_'' # (k @ CHR ''_'' # phaseName p)
          = g' @ CHR ''_'' # (k' @ CHR ''_'' # phaseName q)"
    using assms(3) by (simp add: timerKey_def)
  from append_sep_eq[OF assms(1,2) this]
  have "g = g'" "k @ CHR ''_'' # phaseName p = k' @ CHR ''_'' # phaseName q" by simp_all
  then show ?thesis using tail_eq by blast
qed

subsection \<open>Exact registries\<close>

lemma exact_registered: "exact s \<Longrightarrow> registered s"
  by (simp add: exact_def)

lemma exact_same:
  "timeouts s' = timeouts s \<Longrightarrow> activeTimers s' = activeTimers s
     \<Longrightarrow> nextHandle s' = nextHandle s \<Longrightarrow> exact s' = exact s"
  by (simp add: exact_def registered_def)

lemma exact_modifyBoss [simp]: "exact (modifyBoss g k f s) = exact s"
  by (rule exact_same) simp_all

lemma exact_saveBossData [simp]: "exact (saveBossData w s) = exact s"
  by (rule exact_same) simp_all

lemma same_handle_same_timer:
  assumes "registered s" "t \<in> set (timeouts s)" "t' \<in> set (timeouts s)" "handle t = handle t'"
  shows "t = t'"
proof -
  have "distinct (map handle (timeouts s))" using assms(1) by (simp add: registered_def)
  then have "inj_on handle (set (timeouts s))" by (simp add: distinct_map)
  then show ?thesis using assms(2-4) by (simp add: inj_on_def)
qed

text \<open>Clearing a key removes only timers of that key.\<close>

lemma clearTimerKey_removes:
  assumes "exact s" "t \<in> set (timeouts s)" "keyOf (callback t) \<noteq> key"
  shows "t \<in> set (timeouts (clearTimerKey key s))"
proof (cases "map_of (activeTimers s) key")
  case None
  then show ?thesis using assms(2) by (simp add: clearTimerKey_def)
next
  case (Some h)
  obtain t0 where t0: "t0 \<in> set (timeouts s)" "handle t0 = h" "keyOf (callback t0) = key"
    using assms(1) Some unfolding exact_def by blast
  have "handle t \<noteq> h"
  proof
    assume "handle t = h"
    then have "t = t0"
      using same_handle_same_timer[OF exact_registered[OF assms(1)] assms(2) t0(1)] t0(2) by simp
    then show False using assms(3) t0(3) by simp
  qed
  then show ?thesis using assms(2) Some by (simp add: clearTimerKey_def clearTimeout_def)
qed

lemma exact_clearTimerKey:
  assumes "exact s"
  shows "exact (clearTimerKey key s)"
  unfolding exact_def
proof (intro conjI allI impI)
  show "registered (clearTimerKey key s)"
    using exact_registered[OF assms] by (rule registered_clearTimerKey)
next
  fix key' h' assume a: "map_of (activeTimers (clearTimerKey key s)) key' = Some h'"
  then have ne: "key' \<noteq> key" and old: "map_of (activeTimers s) key' = Some h'"
    by (auto simp: unregistered_clearTimerKey split: if_splits)
  obtain t where t: "t \<in> set (timeouts s)" "handle t = h'" "keyOf (callback t) = key'"
    using assms old unfolding exact_def by blast
  have "t \<in> set (timeouts (clearTimerKey key s))"
    by (rule clearTimerKey_removes[OF assms t(1)]) (use t(3) ne in simp)
  then show "\<exists>t\<in>set (timeouts (clearTimerKey key s)). handle t = h' \<and> keyOf (callback t) = key'"
    using t by blast
qed

lemma exact_arm:
  assumes "exact s" "map_of (activeTimers s) key = None" "keyOf cb = key"
  shows "exact (arm key cb d now s)"
  unfolding exact_def
proof (intro conjI allI impI)
  show "registered (arm key cb d now s)"
    by (rule registered_arm[OF exact_registered[OF assms(1)] assms(2,3)])
next
  fix key' h' assume a: "map_of (activeTimers (arm key cb d now s)) key' = Some h'"
  show "\<exists>t\<in>set (timeouts (arm key cb d now s)). handle t = h' \<and> keyOf (callback t) = key'"
  proof (cases "key' = key")
    case True
    then have "h' = nextHandle s" using a by (simp add: activeTimers_arm)
    then show ?thesis using True assms(3) by (simp add: timeouts_arm)
  next
    case False
    then have "map_of (activeTimers s) key' = Some h'" using a by (simp add: activeTimers_arm)
    then obtain t where "t \<in> set (timeouts s)" "handle t = h'" "keyOf (callback t) = key'"
      using assms(1) unfolding exact_def by blast
    then show ?thesis by (auto simp: timeouts_arm)
  qed
qed

lemma exact_clearBossTimers: "exact s \<Longrightarrow> exact (clearBossTimers g k s)"
  by (simp add: clearBossTimers_unfold exact_clearTimerKey)

lemma exact_scheduleBossNotifications:
  assumes "exact s"
  shows "exact (scheduleBossNotifications v now g k s)"
proof (cases rule: schedule_cases[of v now g k s])
  case noop
  then show ?thesis using assms by simp
next
  case (sched b m)
  let ?s1 = "clearBossTimers g k s"
  let ?s2 = "modifyBoss g k (\<lambda>b. b\<lparr>notificationJob := Some (timerKey g k ''pre'')\<rparr>)
                       (arm (timerKey g k ''pre'') (PreCallback g k)
                          (m - PRE_SPAWN_NOTIFICATION_MINUTES v * 60 * 1000 - now) now ?s1)"
  have r1: "exact ?s1" using assms by (rule exact_clearBossTimers)
  have u1: "map_of (activeTimers ?s1) (timerKey g k ''pre'') = None"
           "map_of (activeTimers ?s1) (timerKey g k ''spawn'') = None"
    by (simp_all add: activeTimers_clearBossTimers)
  have r2: "exact ?s2" using exact_arm[OF r1 u1(1), of "PreCallback g k"] by simp
  have u2: "map_of (activeTimers ?s2) (timerKey g k ''spawn'') = None"
    using u1(2) by (simp add: activeTimers_arm)
  have r3: "exact (modifyBoss g k f (arm (timerKey g k ''spawn'') (SpawnCallback g k) d now ?s1))"
    for f d using exact_arm[OF r1 u1(2), of "SpawnCallback g k"] by simp
  have r4: "exact (modifyBoss g k f (arm (timerKey g k ''spawn'') (SpawnCallback g k) d now ?s2))"
    for f d using exact_arm[OF r2 u2, of "SpawnCallback g k"] by simp
  show ?thesis
    unfolding scheduleBossNotifications_eq[OF sched] Let_def
    using r1 r2 r3 r4 by simp
qed

lemma exact_scheduleAutoMissTimer:
  assumes "exact s"
  shows "exact (scheduleAutoMissTimer v w now g k mid chan s)"
proof -
  let ?s1 = "clearTimerKey (timerKey g k ''automiss'') s"
  have r1: "exact ?s1" using assms by (rule exact_clearTimerKey)
  have u1: "map_of (activeTimers ?s1) (timerKey g k ''automiss'') = None"
    by (simp add: unregistered_clearTimerKey)
  have r2: "exact (arm (timerKey g k ''automiss'') (AutoMissCallback g k mid chan) d now ?s1)"
    for d by (rule exact_arm[OF r1 u1]) simp
  show ?thesis
    unfolding scheduleAutoMissTimer_def Let_def
    using r1 r2 by (cases v; cases "getBoss ?s1 g k") simp_all
qed

lemma exact_initBoss:
  assumes "exact s"
  shows "exact (initBoss v w now g k s)"
proof -
  have 1: "exact (scheduleBossNotifications v now g k s)"
    using assms by (rule exact_scheduleBossNotifications)
  have 2: "exact (scheduleAutoMissTimer v w now g k mid ch s')" if "exact s'"
    for mid ch s' using that by (rule exact_scheduleAutoMissTimer)
  show ?thesis
    unfolding initBoss_def Let_def
    using assms 1 2 by (simp split: option.splits)
qed

subsection \<open>Scheduling one boss leaves the timers of the others\<close>

lemma armed_clearTimerKey_other:
  assumes "exact s" "\<And>p. key \<noteq> timerKey g k (phaseName p)"
  shows "armed (clearTimerKey key s) g k p = armed s g k p"
proof (cases "map_of (activeTimers s) key")
  case None
  then show ?thesis by (simp add: clearTimerKey_def)
next
  case (Some h)
  have keep: "handle t \<noteq> h"
    if "t \<in> set (timeouts s)" "ownerOf (callback t) = (g, k) \<and> phaseOf (callback t) = p" for t
  proof -
    have "keyOf (callback t) = timerKey g k (phaseName p)"
      using that(2) by (simp add: keyOf_of_owner)
    then have ne: "keyOf (callback t) \<noteq> key" using assms(2)[of p] by simp
    have "t \<in> set (timeouts (clearTimerKey key s))"
      by (rule clearTimerKey_removes[OF assms(1) that(1) ne])
    then show ?thesis using Some by (simp add: clearTimerKey_def clearTimeout_def)
  qed
  have "timeouts (clearTimerKey key s) = filter (\<lambda>t. handle t \<noteq> h) (timeouts s)"
    using Some by (simp add: clearTimerKey_def clearTimeout_def)
  then have "armed (clearTimerKey key s) g k p =
      filter (\<lambda>t. handle t \<noteq> h \<and> (ownerOf (callback t) = (g, k) \<and> phaseOf (callback t) = p))
        (timeouts s)"
    by (simp add: armed_def conj_commute)
  also have "\<dots> = filter (\<lambda>t. ownerOf (callback t) = (g, k) \<and> phaseOf (callback t) = p)
                     (timeouts s)"
    by (rule filter_cong[OF refl]) (use keep in blast)
  finally show ?thesis by (simp add: armed_def)
qed

lemma armed_arm_other:
  assumes "ownerOf cb \<noteq> (g, k)"
  shows "armed (arm key cb d now s) g k p = armed s g k p"
  using assms by (simp add: armed_def timeouts_arm)

lemma armed_modifyBoss [simp]: "armed (modifyBoss g' k' f s) g k p = armed s g k p"
  by (rule armed_timeouts) simp

lemma armed_saveBossData [simp]: "armed (saveBossData w s) g k p = armed s g k p"
  by (rule armed_timeouts) simp

text \<open>Two bosses whose timer keys do not meet.\<close>

lemma keys_apart:
  assumes "CHR ''_'' \<notin> set g" "CHR ''_'' \<notin> set g'" "(g', k') \<noteq> (g, k)"
  shows "timerKey g' k' (phaseName q) \<noteq> timerKey g k (phaseName p)"
  using timerKey_eq[OF assms(2,1), of k' q k p] assms(3) by blast

lemma phaseName_simps:
  "''pre'' = phaseName Pre" "''spawn'' = phaseName Spawn" "''automiss'' = phaseName AutoMiss"
  by (simp_all add: phaseName_def)

lemma armed_clearBossTimers_other:
  assumes "exact s" "CHR ''_'' \<notin> set g" "CHR ''_'' \<notin> set g'" "(g', k') \<noteq> (g, k)"
  shows "armed (clearBossTimers g' k' s) g k p = armed s g k p"
proof -
  note ka = keys_apart[OF assms(2-4)]
  let ?s1 = "clearTimerKey (timerKey g' k' ''pre'') s"
  let ?s2 = "clearTimerKey (timerKey g' k' ''spawn'') ?s1"
  have e1: "exact ?s1" using assms(1) by (rule exact_clearTimerKey)
  have e2: "exact ?s2" using e1 by (rule exact_clearTimerKey)
  have "armed (clearTimerKey (timerKey g' k' ''automiss'') ?s2) g k p = armed ?s2 g k p"
    by (rule armed_clearTimerKey_other[OF e2]) (simp add: phaseName_simps(3) ka)
  also have "\<dots> = armed ?s1 g k p"
    by (rule armed_clearTimerKey_other[OF e1]) (simp add: phaseName_simps(2) ka)
  also have "\<dots> = armed s g k p"
    by (rule armed_clearTimerKey_other[OF assms(1)]) (simp add: phaseName_simps(1) ka)
  finally show ?thesis by (simp add: clearBossTimers_unfold)
qed

lemma armed_scheduleBossNotifications_other:
  assumes "exact s" "CHR ''_'' \<notin> set g" "CHR ''_'' \<notin> set g'" "(g', k') \<noteq> (g, k)"
  shows "armed (scheduleBossNotifications v now g' k' s) g k p = armed s g k p"
proof (cases rule: schedule_cases[of v now g' k' s])
  case noop
  then show ?thesis by simp
next
  case (sched b m)
  have c: "filter (\<lambda>t. ownerOf (callback t) = (g, k) \<and> phaseOf (callback t) = p)
             (timeouts (clearBossTimers g' k' s))
           = filter (\<lambda>t. ownerOf (callback t) = (g, k) \<and> phaseOf (callback t) = p)
               (timeouts s)"
    using armed_clearBossTimers_other[OF assms, of p] by (simp add: armed_def)
  have ne: "\<not> (g' = g \<and> k' = k)" using assms(4) by simp
  show ?thesis
    unfolding armed_def timeouts_scheduleBossNotifications[OF sched]
    using ne by (auto simp: c)
qed

lemma armed_scheduleAutoMissTimer_other:
  assumes "exact s" "CHR ''_'' \<notin> set g" "CHR ''_'' \<notin> set g'" "(g', k') \<noteq> (g, k)"
  shows "armed (scheduleAutoMissTimer v w now g' k' mid chan s) g k p = armed s g k p"
proof -
  let ?s1 = "clearTimerKey (timerKey g' k' ''automiss'') s"
  have a1: "armed ?s1 g k p = armed s g k p"
    by (rule armed_clearTimerKey_other[OF assms(1)])
       (simp add: phaseName_simps(3) keys_apart[OF assms(2-4)])
  have a2: "armed (arm key (AutoMissCallback g' k' mid chan) d now ?s1) g k p = armed s g k p"
    for key d using assms(4) a1 by (simp add: armed_arm_other)
  show ?thesis
    unfolding scheduleAutoMissTimer_def Let_def
    using a1 a2 by (cases v; cases "getBoss ?s1 g' k'") simp_all
qed

lemma getBoss_saveBossData [simp]: "getBoss (saveBossData w s) g k = getBoss s g k"
  by (simp add: getBoss_def bossData_saveBossData)

lemma getBoss_scheduleAutoMissTimer_other:
  assumes "(g', k') \<noteq> (g, k)"
  shows "getBoss (scheduleAutoMissTimer v w now g' k' mid chan s) g k = getBoss s g k"
  unfolding scheduleAutoMissTimer_def Let_def
  using assms
  by (cases v; cases "getBoss (clearTimerKey (timerKey g' k' ''automiss'') s) g' k'")
     (auto simp: getBoss_modifyBoss)

lemma initBoss_other:
  assumes "exact s" "CHR ''_'' \<notin> set g" "CHR ''_'' \<notin> set g'" "(g', k') \<noteq> (g, k)"
  shows "armed (initBoss v w now g' k' s) g k p = armed s g k p"
    and "getBoss (initBoss v w now g' k' s) g k = getBoss s g k"
proof -
  let ?s1 = "scheduleBossNotifications v now g' k' s"
  have e1: "exact ?s1" using assms(1) by (rule exact_scheduleBossNotifications)
  have a1: "armed ?s1 g k p = armed s g k p"
    by (rule armed_scheduleBossNotifications_other[OF assms])
  have g1: "getBoss ?s1 g k = getBoss s g k"
    by (rule getBoss_scheduleBossNotifications_other) (use assms(4) in auto)
  have a2: "armed (scheduleAutoMissTimer v w now g' k' mid ch ?s1) g k p = armed s g k p"
    for mid ch using armed_scheduleAutoMissTimer_other[OF e1 assms(2-4)] a1 by simp
  have a3: "armed (scheduleAutoMissTimer v w now g' k' mid ch s) g k p = armed s g k p"
    for mid ch by (rule armed_scheduleAutoMissTimer_other[OF assms])
  have g2: "getBoss (scheduleAutoMissTimer v w now g' k' mid ch s') g k = getBoss s' g k"
    for mid ch s' by (rule getBoss_scheduleAutoMissTimer_other[OF assms(4)])
  show "armed (initBoss v w now g' k' s) g k p = armed s g k p"
    unfolding initBoss_def Let_def
    using a1 a2 a3 by (simp split: option.splits)
  show "getBoss (initBoss v w now g' k' s) g k = getBoss s g k"
    unfolding initBoss_def Let_def
    using g1 g2 by (simp split: option.splits)
qed

lemma initBoss_self:
  assumes r: "registered s"
    and b: "getBoss s g k = Some b" "nextSpawnEstimateMin b = Some m"
    and t: "m \<noteq> 0" "now < m" "m - PRE_SPAWN_NOTIFICATION_MINUTES v * 60 * 1000 \<le> now"
  shows "initBoss v w now g k s = scheduleBossNotifications v now g k s"
    and "armed (initBoss v w now g k s) g k Spawn
           = [\<lparr>handle = nextHandle s, due = m, callback = SpawnCallback g k\<rparr>]"
    and "armed (initBoss v w now g k s) g k Pre = []"
    and "armed (initBoss v w now g k s) g k AutoMiss = []"
    and "\<exists>b'. getBoss (initBoss v w now g k s) g k = Some b' \<and> nextSpawnEstimateMin b' = Some m"
proof -
  let ?s1 = "scheduleBossNotifications v now g k s"
  have g1: "getBoss ?s1 g k =
     Some (b\<lparr>notificationJob := None,
             spawnNotificationJob := Some (timerKey g k ''spawn''),
             autoMissJob := None\<rparr>)"
    using getBoss_scheduleBossNotifications[OF b t(1), of v now] t(2,3) by simp
  show e: "initBoss v w now g k s = ?s1"
    unfolding initBoss_def Let_def
    using b t(1,2) g1 by (simp split: option.splits)
  have "m - now \<le> PRE_SPAWN_NOTIFICATION_MINUTES v * 60 * 1000"
    using t(3) by simp
  also have "\<dots> \<le> 2147483647"
    by (cases v) (simp_all add: PRE_SPAWN_NOTIFICATION_MINUTES_def)
  finally have d: "now + timerDelay (m - now) = m"
    by (simp add: timerDelay_def)
  show "armed (initBoss v w now g k s) g k Spawn
           = [\<lparr>handle = nextHandle s, due = m, callback = SpawnCallback g k\<rparr>]"
    unfolding e using armed_scheduleBossNotifications(2)[OF r b t(1), of v now] t(2,3) d by simp
  show "armed (initBoss v w now g k s) g k Pre = []"
    unfolding e using armed_scheduleBossNotifications(1)[OF r b t(1), of v now] t(3) by simp
  show "armed (initBoss v w now g k s) g k AutoMiss = []"
    unfolding e by (rule armed_scheduleBossNotifications(3)[OF r b t(1)])
  show "\<exists>b'. getBoss (initBoss v w now g k s) g k = Some b' \<and> nextSpawnEstimateMin b' = Some m"
    unfolding e g1 using b(2) by simp
qed

lemma initialize_fold:
  assumes us: "CHR ''_'' \<notin> set g"
    and t: "m \<noteq> 0" "now < m" "m - PRE_SPAWN_NOTIFICATION_MINUTES v * 60 * 1000 \<le> now"
    and inv: "exact s" "\<exists>b'. getBoss s g k = Some b' \<and> nextSpawnEstimateMin b' = Some m"
      "armed s g k Pre = []" "armed s g k AutoMiss = []"
    and keys: "\<forall>x \<in> set keys. CHR ''_'' \<notin> set (fst x)"
    and good: "(\<exists>h. armed s g k Spawn = [\<lparr>handle = h, due = m, callback = SpawnCallback g k\<rparr>])
               \<or> (g, k) \<in> set keys"
  shows "(\<exists>h. armed (foldl (\<lambda>s' (guildId, bossKey). initBoss v w now guildId bossKey s') s keys)
                 g k Spawn = [\<lparr>handle = h, due = m, callback = SpawnCallback g k\<rparr>])
       \<and> armed (foldl (\<lambda>s' (guildId, bossKey). initBoss v w now guildId bossKey s') s keys)
           g k Pre = []
       \<and> armed (foldl (\<lambda>s' (guildId, bossKey). initBoss v w now guildId bossKey s') s keys)
           g k AutoMiss = []"
  using inv keys good
proof (induction keys arbitrary: s)
  case Nil
  then show ?case by simp
next
  case (Cons x xs)
  obtain g' k' where x: "x = (g', k')" by (cases x)
  let ?s1 = "initBoss v w now g' k' s"
  have e1: "exact ?s1" using Cons.prems(1) by (rule exact_initBoss)
  have ks: "\<forall>x \<in> set xs. CHR ''_'' \<notin> set (fst x)" using Cons.prems(5) by simp
  have step: "(\<exists>b'. getBoss ?s1 g k = Some b' \<and> nextSpawnEstimateMin b' = Some m)
      \<and> armed ?s1 g k Pre = [] \<and> armed ?s1 g k AutoMiss = []
      \<and> ((\<exists>h. armed ?s1 g k Spawn = [\<lparr>handle = h, due = m, callback = SpawnCallback g k\<rparr>])
           \<or> (g, k) \<in> set xs)"
  proof (cases "(g', k') = (g, k)")
    case True
    obtain b' where b': "getBoss s g k = Some b'" "nextSpawnEstimateMin b' = Some m"
      using Cons.prems(2) by blast
    note i = initBoss_self[OF exact_registered[OF Cons.prems(1)] b' t, of w]
    show ?thesis using True i(2-5) by simp
  next
    case False
    have u': "CHR ''_'' \<notin> set g'" using Cons.prems(5) x by simp
    note o = initBoss_other[OF Cons.prems(1) us u' False, of v w now]
    have "(\<exists>h. armed s g k Spawn = [\<lparr>handle = h, due = m, callback = SpawnCallback g k\<rparr>])
            \<or> (g, k) \<in> set xs"
      using Cons.prems(6) False x by auto
    then show ?thesis
      unfolding o using Cons.prems(2,3,4) by simp
  qed
  have "(\<exists>h. armed (foldl (\<lambda>s' (guildId, bossKey). initBoss v w now guildId bossKey s') ?s1 xs)
                 g k Spawn = [\<lparr>handle = h, due = m, callback = SpawnCallback g k\<rparr>])
       \<and> armed (foldl (\<lambda>s' (guildId, bossKey). initBoss v w now guildId bossKey s') ?s1 xs)
           g k Pre = []
       \<and> armed (foldl (\<lambda>s' (guildId, bossKey). initBoss v w now guildId bossKey s') ?s1 xs)
           g k AutoMiss = []"
    by (rule Cons.IH[OF e1 _ _ _ ks]) (use step in blast)+
  then show ?case by (simp add: x)
qed

lemma getBoss_allBossKeys:
  assumes "getBoss s g k = Some b"
  shows "(g, k) \<in> set (allBossKeys s)"
proof -
  obtain gb where gb: "map_of (bossData s) g = Some gb" "map_of gb k = Some b"
    using assms by (auto simp: getBoss_def split: option.splits)
  have "(g, gb) \<in> set (bossData s)" using gb(1) by (rule map_of_SomeD)
  moreover have "(k, b) \<in> set gb" using gb(2) by (rule map_of_SomeD)
  ultimately show ?thesis by (force simp: allBossKeys_def)
qed

lemma timers_loadBossData:
  "timeouts (loadBossData v s) = timeouts s"
  "activeTimers (loadBossData v s) = activeTimers s"
  "nextHandle (loadBossData v s) = nextHandle s"
proof -
  have c: "timeouts (catchLoad (readDataFile s')) = timeouts s'"
    "activeTimers (catchLoad (readDataFile s')) = activeTimers s'"
    "nextHandle (catchLoad (readDataFile s')) = nextHandle s'" for s'
    using catchLoad_readDataFile_timers[of s'] by simp_all
  show "timeouts (loadBossData v s) = timeouts s"
    by (cases "dataFile s"; cases v; cases "importFile s") (simp_all add: loadBossData_def c)
  show "activeTimers (loadBossData v s) = activeTimers s"
    by (cases "dataFile s"; cases v; cases "importFile s") (simp_all add: loadBossData_def c)
  show "nextHandle (loadBossData v s) = nextHandle s"
    by (cases "dataFile s"; cases v; cases "importFile s") (simp_all add: loadBossData_def c)
qed

text \<open>
  C9. At start-up (\<^verbatim>\<open>loadBossData\<close>, then \<^verbatim>\<open>initializeBossTimers\<close>, in a fresh
  process), every restored boss whose \<open>nextSpawnEstimateMin\<close> lies after \<open>now\<close> and
  at most the pre-spawn lead after it ends up with exactly one armed timer, the spawn
  timer due at \<open>nextSpawnEstimateMin\<close>, and with no pre-spawn and no auto-miss timer,
  whatever other bosses the data file holds.  The clock reads a time at or after the
  epoch, and guild ids are Discord snowflakes, which contain no underscore (so that timer
  keys of different bosses differ).
\<close>

theorem C9_reconciliation_arms_spawn_only:
  assumes "getBoss (loadBossData v (boot f imp)) guildId bossKey = Some b"
    and "nextSpawnEstimateMin b = Some m"
    and "0 \<le> now" "now < m" "m - PRE_SPAWN_NOTIFICATION_MINUTES v * 60 * 1000 \<le> now"
    and "\<forall>x \<in> set (allBossKeys (loadBossData v (boot f imp))). CHR ''_'' \<notin> set (fst x)"
  shows "(\<exists>h. armed (ready v w now (boot f imp)) guildId bossKey Spawn
                = [\<lparr>handle = h, due = m, callback = SpawnCallback guildId bossKey\<rparr>])
       \<and> armed (ready v w now (boot f imp)) guildId bossKey Pre = []
       \<and> armed (ready v w now (boot f imp)) guildId bossKey AutoMiss = []"
proof -
  let ?s0 = "loadBossData v (boot f imp)"
  have t0: "timeouts ?s0 = []" "activeTimers ?s0 = []"
    by (simp_all add: timers_loadBossData boot_def)
  have e0: "exact ?s0" by (simp add: exact_def registered_def t0)
  have a0: "armed ?s0 guildId bossKey p = []" for p by (simp add: armed_def t0)
  have mem: "(guildId, bossKey) \<in> set (allBossKeys ?s0)"
    using assms(1) by (rule getBoss_allBossKeys)
  then have us: "CHR ''_'' \<notin> set guildId" using assms(6) by force
  have nz: "m \<noteq> 0" using assms(3,4) by simp
  have b: "\<exists>b'. getBoss ?s0 guildId bossKey = Some b' \<and> nextSpawnEstimateMin b' = Some m"
    using assms(1,2) by simp
  show ?thesis
    unfolding ready_def initializeBossTimers_def
    by (rule initialize_fold[OF us nz assms(4,5) e0 b a0 a0 assms(6)]) (use mem in simp)
qed

lemma getBoss_restored:
  "getBoss (loadBossData Index_js (boot (Json restored) Missing)) ''1'' ''queen'' = Some soon"
  unfolding restored_def soon_def by code_simp

lemma keys_restored:
  "\<forall>x \<in> set (allBossKeys (loadBossData Index_js (boot (Json restored) Missing))).
      CHR ''_'' \<notin> set (fst x)"
  unfolding restored_def soon_def by code_simp

lemma timers_restored:
  "map callback (timeouts (ready Index_js online 1000000000 (boot (Json restored) Missing)))
     = [SpawnCallback ''1'' ''queen'', AutoMissCallback ''2'' ''orfen'' ''900'' ''7'']"
  unfolding restored_def soon_def by code_simp

theorem C9_witness:
  "(\<exists>h. armed (ready Index_js online 1000000000 (boot (Json restored) Missing))
            ''1'' ''queen'' Spawn
          = [\<lparr>handle = h, due = 1000300000, callback = SpawnCallback ''1'' ''queen''\<rparr>])
   \<and> armed (ready Index_js online 1000000000 (boot (Json restored) Missing))
        ''1'' ''queen'' Pre = []
   \<and> armed (ready Index_js online 1000000000 (boot (Json restored) Missing))
        ''1'' ''queen'' AutoMiss = []
   \<and> map callback (timeouts (ready Index_js online 1000000000 (boot (Json restored) Missing)))
       = [SpawnCallback ''1'' ''queen'', AutoMissCallback ''2'' ''orfen'' ''900'' ''7'']"
proof -
  have m: "nextSpawnEstimateMin soon = Some 1000300000" by (simp add: soon_def)
  have t: "(0 :: rat) \<le> 1000000000" "(1000000000 :: rat) < 1000300000"
    "1000300000 - PRE_SPAWN_NOTIFICATION_MINUTES Index_js * 60 * 1000 \<le> 1000000000"
    by (simp_all add: PRE_SPAWN_NOTIFICATION_MINUTES_def)
  from C9_reconciliation_arms_spawn_only [OF getBoss_restored m t keys_restored, of online]
  show ?thesis using timers_restored by simp
qed

section \<open>Responses to a spawn alert\<close>

subsection \<open>The custom id and the handler\<close>

lemma split_plain: "c \<notin> set xs \<Longrightarrow> split c xs = [xs]"
  by (induction xs) auto

lemma split_sep: "c \<notin> set xs \<Longrightarrow> split c (xs @ c # ys) = xs # split c ys"
  by (induction xs) auto

lemma split_customIdOf:
  assumes "CHR ''_'' \<notin> set action" "CHR ''_'' \<notin> set bossKey" "CHR ''_'' \<notin> set guildId"
  shows "split CHR ''_'' (customIdOf action bossKey guildId) = [action, bossKey, guildId]"
  using assms by (simp add: customIdOf_def split_sep split_plain)

lemma bossButton_found:
  assumes parse: "split CHR ''_'' customId = action # bossKey # guildId # rest"
    and boss: "getBoss s guildId bossKey = Some b"
  shows "bossButton v w now customId guildId s =
      (if buttonsShown w
       then (cancelAutoMiss guildId bossKey s, Some (ButtonEdit (Some action) bossKey guildId))
       else buttonAct v w now None (Some action) bossKey guildId (cancelAutoMiss guildId bossKey s))"
proof -
  obtain gb where gb: "map_of (bossData s) guildId = Some gb" "map_of gb bossKey = Some b"
    using boss by (auto simp: getBoss_def split: option.splits)
  show ?thesis
    unfolding bossButton_def Let_def parse element_parts
    by (simp only: gb option.case if_False if_True simp_thms option.inject list.inject)
qed

lemma respond_unfold:
  assumes parse: "split CHR ''_'' customId = action # bossKey # guildId # rest"
    and boss: "getBoss s guildId bossKey = Some b"
    and shown: "buttonsShown w"
  shows "respond v w M R customId guildId s =
      (if action = ''dead''
       then modifyBoss guildId bossKey (\<lambda>b. b\<lparr>messageIdToTrack := None\<rparr>)
              (updateBossAsKilled v w M guildId bossKey M True (cancelAutoMiss guildId bossKey s))
       else if action = ''miss''
       then if \<not> replyOk w then modifyBoss guildId bossKey (missUpdate M) (cancelAutoMiss guildId bossKey s)
               else modifyBoss guildId bossKey (\<lambda>b. b\<lparr>messageIdToTrack := None\<rparr>)
                      (saveBossData w (scheduleBossNotifications v R guildId bossKey
                         (clearBossTimers guildId bossKey (deliver (Replied ''missed'')
                            (modifyBoss guildId bossKey (missUpdate M) (cancelAutoMiss guildId bossKey s))))))
       else if action = ''notappeared''
       then if \<not> replyOk w then modifyBoss guildId bossKey (notAppearedUpdate M) (cancelAutoMiss guildId bossKey s)
               else modifyBoss guildId bossKey (\<lambda>b. b\<lparr>messageIdToTrack := None\<rparr>)
                      (saveBossData w (scheduleBossNotifications v R guildId bossKey
                         (clearBossTimers guildId bossKey (deliver (Replied ''did not appear'')
                            (modifyBoss guildId bossKey (notAppearedUpdate M) (cancelAutoMiss guildId bossKey s))))))
       else modifyBoss guildId bossKey (\<lambda>b. b\<lparr>messageIdToTrack := None\<rparr>) (cancelAutoMiss guildId bossKey s))"
  unfolding respond_def bossButton_found[OF parse boss]
  using shown
  by (simp add: resume_def buttonAct_def buttonReplied_def assign_def)

lemma respond_getBoss:
  assumes parse: "split CHR ''_'' customId = action # bossKey # guildId # rest"
    and boss: "getBoss s guildId bossKey = Some b"
    and shown: "buttonsShown w"
  shows "\<exists>b'. getBoss (respond v w M R customId guildId s) guildId bossKey = Some b'
          \<and> forget b' = forget (buttonUpdate action M b)
          \<and> (replyOk w \<or> (action \<noteq> ''miss'' \<and> action \<noteq> ''notappeared'')
               \<longrightarrow> messageIdToTrack b' = None)"
proof -
  let ?s1 = "cancelAutoMiss guildId bossKey s"
  note unfolded = respond_unfold[OF parse boss shown, of v M R]
  obtain b1 where b1: "getBoss ?s1 guildId bossKey = Some b1" "stripJobs b1 = stripJobs b"
    using sameBosses_getBoss[OF sameBosses_cancelAutoMiss' boss] by blast
  have fin: "getBoss (modifyBoss guildId bossKey (\<lambda>b. b\<lparr>messageIdToTrack := None\<rparr>) s') guildId bossKey
           = Some (x\<lparr>messageIdToTrack := None\<rparr>)"
    if "getBoss s' guildId bossKey = Some x" for s' x
    using that by (simp add: getBoss_modifyBoss)
  have fg: "forget (f b1) = forget (f b)"
    if "\<And>x. stripJobs (f x) = f (stripJobs x)" for f
    using that[of b1] that[of b] b1(2) by (simp add: forget_def)
  have after: "\<exists>b3. getBoss (saveBossData w (scheduleBossNotifications v R guildId bossKey
                         (clearBossTimers guildId bossKey (deliver d
                            (modifyBoss guildId bossKey f ?s1))))) guildId bossKey = Some b3
                 \<and> stripJobs b3 = stripJobs (f b1)" for d f
    by (rule sameBosses_getBoss[OF sameBosses_afterReply]) (simp add: getBoss_modifyBoss b1)
  consider (dead) "action = ''dead''"
    | (miss) "action = ''miss''" "action \<noteq> ''dead''"
    | (na) "action = ''notappeared''" "action \<noteq> ''dead''" "action \<noteq> ''miss''"
    | (other) "action \<noteq> ''dead''" "action \<noteq> ''miss''" "action \<noteq> ''notappeared''"
    by blast
  then show ?thesis
  proof cases
    case dead
    obtain b2 where b2: "getBoss (updateBossAsKilled v w M guildId bossKey M True ?s1)
         guildId bossKey = Some b2" "stripJobs b2 = stripJobs (killedUpdate M b1)"
      using updateBossAsKilled_getBoss[OF b1(1)] by blast
    have r: "respond v w M R customId guildId s =
        modifyBoss guildId bossKey (\<lambda>b. b\<lparr>messageIdToTrack := None\<rparr>)
              (updateBossAsKilled v w M guildId bossKey M True ?s1)"
      using unfolded dead by simp
    have "forget b2 = forget (killedUpdate M b)"
      using b2(2) fg[of "killedUpdate M", OF stripJobs_killedUpdate_comm]
      by (simp add: forget_def)
    then show ?thesis
      unfolding r fin[OF b2(1)] using dead by (simp add: buttonUpdate_def forget_clear)
  next
    case miss
    show ?thesis
    proof (cases "replyOk w")
      case False
      have r: "respond v w M R customId guildId s =
                 modifyBoss guildId bossKey (missUpdate M) ?s1"
        using unfolded miss False by simp
      show ?thesis
        unfolding r using miss False b1(1) fg[of "missUpdate M", OF stripJobs_missUpdate_comm]
        by (simp add: getBoss_modifyBoss buttonUpdate_def)
    next
      case True
      obtain b3 where b3: "getBoss (saveBossData w (scheduleBossNotifications v R guildId bossKey
                         (clearBossTimers guildId bossKey (deliver (Replied ''missed'')
                            (modifyBoss guildId bossKey (missUpdate M) ?s1))))) guildId bossKey = Some b3"
                 "stripJobs b3 = stripJobs (missUpdate M b1)"
        using after by blast
      have r: "respond v w M R customId guildId s =
            modifyBoss guildId bossKey (\<lambda>b. b\<lparr>messageIdToTrack := None\<rparr>)
                      (saveBossData w (scheduleBossNotifications v R guildId bossKey
                         (clearBossTimers guildId bossKey (deliver (Replied ''missed'')
                            (modifyBoss guildId bossKey (missUpdate M) ?s1)))))"
        using unfolded miss True by simp
      have "forget b3 = forget (missUpdate M b)"
        using b3(2) fg[of "missUpdate M", OF stripJobs_missUpdate_comm]
        by (simp add: forget_def)
      then show ?thesis
        unfolding r fin[OF b3(1)] using miss by (simp add: buttonUpdate_def forget_clear)
    qed
  next
    case na
    show ?thesis
    proof (cases "replyOk w")
      case False
      have r: "respond v w M R customId guildId s =
                 modifyBoss guildId bossKey (notAppearedUpdate M) ?s1"
        using unfolded na False by simp
      show ?thesis
        unfolding r using na False b1(1)
          fg[of "notAppearedUpdate M", OF stripJobs_notAppearedUpdate_comm]
        by (simp add: getBoss_modifyBoss buttonUpdate_def)
    next
      case True
      obtain b3 where b3: "getBoss (saveBossData w (scheduleBossNotifications v R guildId bossKey
                         (clearBossTimers guildId bossKey (deliver (Replied ''did not appear'')
                            (modifyBoss guildId bossKey (notAppearedUpdate M) ?s1))))) guildId bossKey = Some b3"
                 "stripJobs b3 = stripJobs (notAppearedUpdate M b1)"
        using after by blast
      have r: "respond v w M R customId guildId s =
            modifyBoss guildId bossKey (\<lambda>b. b\<lparr>messageIdToTrack := None\<rparr>)
                      (saveBossData w (scheduleBossNotifications v R guildId bossKey
                         (clearBossTimers guildId bossKey (deliver (Replied ''did not appear'')
                            (modifyBoss guildId bossKey (notAppearedUpdate M) ?s1)))))"
        using unfolded na True by simp
      have "forget b3 = forget (notAppearedUpdate M b)"
        using b3(2) fg[of "notAppearedUpdate M", OF stripJobs_notAppearedUpdate_comm]
        by (simp add: forget_def)
      then show ?thesis
        unfolding r fin[OF b3(1)] using na by (simp add: buttonUpdate_def forget_clear)
    qed
  next
    case other
    have r: "respond v w M R customId guildId s =
        modifyBoss guildId bossKey (\<lambda>b. b\<lparr>messageIdToTrack := None\<rparr>) ?s1"
      using unfolded other by simp
    have "forget b1 = forget b" using b1(2) by (simp add: forget_def)
    then show ?thesis
      unfolding r fin[OF b1(1)] using other by (simp add: buttonUpdate_def forget_clear)
  qed
qed

subsection \<open>The missed response\<close>

text \<open>
  C4 fails on the code.  The button handler splits the custom id at every underscore and
  takes the third part for the guild id, and the key of a boss holds an underscore for every
  run of white space in its name.  The boss of the help text, \<^verbatim>\<open>Queen Ant\<close>, has the
  key \<open>queen_ant\<close>; the Missed button of its spawn alert has the custom id
  \<open>miss_queen_ant_1\<close>, which splits into \<open>miss\<close>, \<open>queen\<close>, \<open>ant\<close>,
  \<open>1\<close>.  A click on it at time \<open>80401000\<close> is answered, in both copies of the bot,
  with \<^verbatim>\<open>Server identification error.\<close> and changes nothing else: after the response
  \<open>isWindow\<close> is false, \<open>lastKilled\<close> is \<open>1000\<close> and the window is
  \<open>79201000\<close> to \<open>93601000\<close> as before, where C4 has \<open>isWindow\<close> true,
  \<open>lastKilled\<close> absent and the window \<open>159601000\<close> to \<open>174001000\<close>.
\<close>

theorem C4_miss_response_dropped:
  "bossKeyOf ''Queen Ant'' = ''queen_ant''
   \<and> customIdOf ''miss'' ''queen_ant'' ''1'' = ''miss_queen_ant_1''
   \<and> split CHR ''_'' ''miss_queen_ant_1'' = [''miss'', ''queen'', ''ant'', ''1'']
   \<and> last (outbox (afterAlert ''queen_ant'')) = Sent ''7'' SpawnAlert ''1'' ''queen_ant''
   \<and> bossButton Index_js online 80401000 ''miss_queen_ant_1'' ''1'' (afterAlert ''queen_ant'')
       = (deliver (Replied ''Server identification error.'') (afterAlert ''queen_ant''), None)
   \<and> bossButton Part_000 online 80401000 ''miss_queen_ant_1'' ''1'' (afterAlert ''queen_ant'')
       = (deliver (Replied ''Server identification error.'') (afterAlert ''queen_ant''), None)
   \<and> map_option isWindow
        (getBoss (respond Index_js online 80401000 80401000 ''miss_queen_ant_1'' ''1''
                    (afterAlert ''queen_ant'')) ''1'' ''queen_ant'') = Some False
   \<and> map_option lastKilled
        (getBoss (respond Index_js online 80401000 80401000 ''miss_queen_ant_1'' ''1''
                    (afterAlert ''queen_ant'')) ''1'' ''queen_ant'') = Some (Some 1000)
   \<and> map_option nextSpawnEstimateMin
        (getBoss (respond Index_js online 80401000 80401000 ''miss_queen_ant_1'' ''1''
                    (afterAlert ''queen_ant'')) ''1'' ''queen_ant'') = Some (Some 79201000)
   \<and> map_option nextSpawnEstimateMax
        (getBoss (respond Index_js online 80401000 80401000 ''miss_queen_ant_1'' ''1''
                    (afterAlert ''queen_ant'')) ''1'' ''queen_ant'') = Some (Some 93601000)"
  by code_simp

text \<open>
  Where the custom id splits as intended (no underscore in the key and in the guild id) and
  the minimum interval is not negative, the missed response sets the fields as C4 has
  them.
\<close>

lemma respond_miss_estimates:
  assumes key: "CHR ''_'' \<notin> set bossKey" "CHR ''_'' \<notin> set guildId"
    and boss: "getBoss s guildId bossKey = Some b"
    and shown: "buttonsShown w"
    and min: "0 \<le> minRespawnHours b"
  shows "\<exists>b'. getBoss (respond v w M R (customIdOf ''miss'' bossKey guildId) guildId s)
                 guildId bossKey = Some b'
      \<and> isWindow b' = True
      \<and> lastKilled b' = None
      \<and> nextSpawnEstimateMin b' = Some (M + minRespawnHours b * 60 * 60 * 1000)
      \<and> nextSpawnEstimateMax b' =
          (case maxRespawnHours b of
             None \<Rightarrow> Some (M + minRespawnHours b * 60 * 60 * 1000 + 1 * 60 * 60 * 1000)
           | Some mx \<Rightarrow>
              if mx > minRespawnHours b
              then Some (M + mx * 60 * 60 * 1000)
              else Some (M + minRespawnHours b * 60 * 60 * 1000 + 1 * 60 * 60 * 1000))"
proof -
  have us: "CHR ''_'' \<notin> set ''miss''" by simp
  have parse: "split CHR ''_'' (customIdOf ''miss'' bossKey guildId)
                 = ''miss'' # bossKey # guildId # []"
    by (rule split_customIdOf[OF us key])
  obtain b' where b': "getBoss (respond v w M R (customIdOf ''miss'' bossKey guildId) guildId s)
                         guildId bossKey = Some b'"
    and f: "forget b' = forget (buttonUpdate ''miss'' M b)"
    using respond_getBoss[OF parse boss shown] by blast
  have u: "buttonUpdate ''miss'' M b = missUpdate M b"
    by (simp add: buttonUpdate_def)
  have x: "nextSpawnEstimateMax (missUpdate M b) =
          (case maxRespawnHours b of
             None \<Rightarrow> Some (M + minRespawnHours b * 60 * 60 * 1000 + 1 * 60 * 60 * 1000)
           | Some mx \<Rightarrow>
              if mx > minRespawnHours b
              then Some (M + mx * 60 * 60 * 1000)
              else Some (M + minRespawnHours b * 60 * 60 * 1000 + 1 * 60 * 60 * 1000))"
    using min by (auto simp: missUpdate_def algebra_simps split: option.splits)
  have y: "isWindow (missUpdate M b) = True" "lastKilled (missUpdate M b) = None"
    "nextSpawnEstimateMin (missUpdate M b) = Some (M + minRespawnHours b * 60 * 60 * 1000)"
    by (simp_all add: missUpdate_def)
  show ?thesis
    using b' forget_fields(1-4)[OF f] unfolding u x y by simp
qed

subsection \<open>The not-appeared response\<close>

lemma notAppearedUpdate_window:
  assumes "nextSpawnEstimateMin b = Some m" "m \<noteq> 0"
  shows "nextSpawnEstimateMin (notAppearedUpdate now b) = Some (m + 3600000)"
    and "isWindow (notAppearedUpdate now b) = True"
    and "nextSpawnEstimateMax (notAppearedUpdate now b) = Some (windowEnd b m + 3600000)"
    and "minRespawnHours (notAppearedUpdate now b) = minRespawnHours b"
    and "maxRespawnHours (notAppearedUpdate now b) = maxRespawnHours b"
  using assms
  by (auto simp: notAppearedUpdate_def windowEnd_def derivedWidth_def Let_def algebra_simps
      split: option.splits)

lemma derivedWidth_pos: "0 < derivedWidth b"
  by (simp add: derivedWidth_def split: option.splits)

lemma windowEnd_after:
  assumes "0 < m"
    and "case nextSpawnEstimateMax b of None \<Rightarrow> True | Some e \<Rightarrow> e = 0 \<or> m < e"
  shows "m < windowEnd b m"
  using assms derivedWidth_pos[of b]
  by (auto simp: windowEnd_def split: option.splits)

lemma respond_notappeared:
  assumes parse: "split CHR ''_'' customId = ''notappeared'' # bossKey # guildId # rest"
    and boss: "getBoss s guildId bossKey = Some b"
    and shown: "buttonsShown w"
    and m: "nextSpawnEstimateMin b = Some m" "m \<noteq> 0"
  shows "\<exists>b'. getBoss (respond v w M R customId guildId s) guildId bossKey = Some b'
           \<and> nextSpawnEstimateMin b' = Some (m + 3600000)
           \<and> isWindow b' = True
           \<and> nextSpawnEstimateMax b' = Some (windowEnd b m + 3600000)"
proof -
  obtain b' where b': "getBoss (respond v w M R customId guildId s) guildId bossKey = Some b'"
    and f: "forget b' = forget (buttonUpdate ''notappeared'' M b)"
    using respond_getBoss[OF parse boss shown] by blast
  have u: "buttonUpdate ''notappeared'' M b = notAppearedUpdate M b"
    by (simp add: buttonUpdate_def)
  show ?thesis
    using b' forget_fields(2-4)[OF f]
    unfolding u notAppearedUpdate_window[OF m]
    by simp
qed

lemma respond_notappeared_repeated:
  assumes parse: "split CHR ''_'' customId = ''notappeared'' # bossKey # guildId # rest"
    and boss: "getBoss s guildId bossKey = Some b"
    and m: "nextSpawnEstimateMin b = Some m" "0 < m"
    and e: "case nextSpawnEstimateMax b of None \<Rightarrow> True | Some e \<Rightarrow> e = 0 \<or> m < e"
    and shown: "\<forall>p \<in> set presses. buttonsShown (fst p)"
  shows "\<exists>b'. getBoss (foldl (\<lambda>s' (w, M, R). respond v w M R customId guildId s') s presses)
                 guildId bossKey = Some b'
           \<and> nextSpawnEstimateMin b' = Some (m + of_nat (length presses) * 3600000)
           \<and> (presses \<noteq> [] \<longrightarrow> isWindow b' = True
                 \<and> nextSpawnEstimateMax b'
                     = Some (windowEnd b m + of_nat (length presses) * 3600000))"
  using boss m e shown
proof (induction presses arbitrary: s b m)
  case Nil
  then show ?case by simp
next
  case (Cons p ps)
  obtain w M R where p: "p = (w, M, R)" by (cases p)
  have sh: "buttonsShown w" using Cons.prems(5) p by simp
  have m0: "m \<noteq> 0" using Cons.prems(3) by simp
  obtain b1 where b1: "getBoss (respond v w M R customId guildId s) guildId bossKey = Some b1"
    and m1: "nextSpawnEstimateMin b1 = Some (m + 3600000)"
    and w1: "isWindow b1 = True"
    and e1: "nextSpawnEstimateMax b1 = Some (windowEnd b m + 3600000)"
    using respond_notappeared[OF parse Cons.prems(1) sh Cons.prems(2) m0, of v M R] by blast
  have gt: "m < windowEnd b m" by (rule windowEnd_after[OF Cons.prems(3,4)])
  have p1: "0 < m + 3600000" using Cons.prems(3) by simp
  have c1: "case nextSpawnEstimateMax b1 of None \<Rightarrow> True | Some e \<Rightarrow> e = 0 \<or> m + 3600000 < e"
    using e1 gt by simp
  have sh1: "\<forall>p \<in> set ps. buttonsShown (fst p)" using Cons.prems(5) by simp
  have we: "windowEnd b1 (m + 3600000) = windowEnd b m + 3600000"
    using e1 gt Cons.prems(3) by (simp add: windowEnd_def)
  from Cons.IH[OF b1 m1 p1 c1 sh1]
  obtain b' where b': "getBoss (foldl (\<lambda>s' (w, M, R). respond v w M R customId guildId s')
                 (respond v w M R customId guildId s) ps) guildId bossKey = Some b'"
    and mm: "nextSpawnEstimateMin b' = Some (m + 3600000 + of_nat (length ps) * 3600000)"
    and rest: "ps \<noteq> [] \<longrightarrow> isWindow b' = True
                 \<and> nextSpawnEstimateMax b'
                     = Some (windowEnd b m + 3600000 + of_nat (length ps) * 3600000)"
    unfolding we by blast
  have len: "x + of_nat (length (p # ps)) * 3600000 = x + 3600000 + of_nat (length ps) * 3600000"
    for x :: rat
    by (simp add: algebra_simps)
  have tail: "isWindow b' = True
       \<and> nextSpawnEstimateMax b' = Some (windowEnd b m + 3600000 + of_nat (length ps) * 3600000)"
  proof (cases ps)
    case Nil
    then have "b' = b1" using b' b1 by simp
    then show ?thesis using w1 e1 Nil by simp
  next
    case (Cons a list)
    then show ?thesis using rest by simp
  qed
  show ?case
    unfolding len using b' mm tail by (simp add: p)
qed




subsection \<open>The auto-miss timer and the missed response\<close>

text \<open>
  C6 fails on the code, in two ways.  For the boss with the key \<open>queen_ant\<close> the
  auto-miss callback, run to its end at time \<open>80401000\<close>, sets \<open>isWindow\<close>, clears
  \<open>lastKilled\<close> and \<open>messageIdToTrack\<close> and makes the window \<open>159601000\<close> to
  \<open>174001000\<close>, while the missed response at the same time is dropped with
  \<^verbatim>\<open>Server identification error.\<close> and leaves all five fields as they were.  And
  for the boss with the key \<open>queen\<close>, whose custom id splits as intended, the missed
  response makes the same window as the callback, but when \<^verbatim>\<open>interaction.reply\<close>
  rejects the handler ends at that \<^verbatim>\<open>await\<close>: \<open>messageIdToTrack\<close> stays
  \<open>900\<close>, which the callback clears.  (When the reply resolves, the five fields agree.)
\<close>

theorem C6_autoMiss_and_miss_differ:
  "map_option (\<lambda>b. (isWindow b, lastKilled b, nextSpawnEstimateMin b, nextSpawnEstimateMax b,
                     messageIdToTrack b))
     (getBoss (finish Index_js [(online, 80401000), (online, 80401000), (online, 80401000),
                                (online, 80401000), (online, 80401000)]
                 (fire 2 (afterAlert ''queen_ant''))) ''1'' ''queen_ant'')
     = Some (True, None, Some 159601000, Some 174001000, None)
   \<and> map_option (\<lambda>b. (isWindow b, lastKilled b, nextSpawnEstimateMin b, nextSpawnEstimateMax b,
                     messageIdToTrack b))
     (getBoss (respond Index_js online 80401000 80401000 ''miss_queen_ant_1'' ''1''
                 (afterAlert ''queen_ant'')) ''1'' ''queen_ant'')
     = Some (False, Some 1000, Some 79201000, Some 93601000, Some ''900'')
   \<and> map_option (\<lambda>b. (isWindow b, lastKilled b, nextSpawnEstimateMin b, nextSpawnEstimateMax b,
                     messageIdToTrack b))
     (getBoss (finish Index_js [(online, 80401000), (online, 80401000), (online, 80401000),
                                (online, 80401000), (online, 80401000)]
                 (fire 2 (afterAlert ''queen''))) ''1'' ''queen'')
     = Some (True, None, Some 159601000, Some 174001000, None)
   \<and> map_option (\<lambda>b. (isWindow b, lastKilled b, nextSpawnEstimateMin b, nextSpawnEstimateMax b,
                     messageIdToTrack b))
     (getBoss (respond Index_js replyFails 80401000 80401000 ''miss_queen_1'' ''1''
                 (afterAlert ''queen'')) ''1'' ''queen'')
     = Some (True, None, Some 159601000, Some 174001000, Some ''900'')
   \<and> map_option (\<lambda>b. (isWindow b, lastKilled b, nextSpawnEstimateMin b, nextSpawnEstimateMax b,
                     messageIdToTrack b))
     (getBoss (respond Index_js online 80401000 80401000 ''miss_queen_1'' ''1''
                 (afterAlert ''queen'')) ''1'' ''queen'')
     = Some (True, None, Some 159601000, Some 174001000, None)"
  by code_simp

subsection \<open>Responses without a tracked message\<close>

lemma rearmed:
  assumes b2: "getBoss s2 g k = Some b2" "nextSpawnEstimateMin b2 = Some m" "m \<noteq> 0" "R < m"
  shows "\<exists>h. nextHandle s2 \<le> h
           \<and> map_of (activeTimers (scheduleBossNotifications v R g k (clearBossTimers g k s2)))
                (timerKey g k ''spawn'') = Some h
           \<and> \<lparr>handle = h, due = R + timerDelay (m - R), callback = SpawnCallback g k\<rparr>
                \<in> set (timeouts (scheduleBossNotifications v R g k (clearBossTimers g k s2)))"
    and "map_option spawnNotificationJob
           (getBoss (scheduleBossNotifications v R g k (clearBossTimers g k s2)) g k)
         = Some (Some (timerKey g k ''spawn''))"
proof -
  let ?s3 = "clearBossTimers g k s2"
  let ?b3 = "b2\<lparr>notificationJob := None, spawnNotificationJob := None, autoMissJob := None\<rparr>"
  have g3: "getBoss ?s3 g k = Some ?b3" using b2(1) by (simp add: getBoss_clearBossTimers)
  have m3: "nextSpawnEstimateMin ?b3 = Some m" using b2(2) by simp
  note eq = scheduleBossNotifications_eq[OF g3 m3 b2(3), of v R]
  let ?h = "if m - PRE_SPAWN_NOTIFICATION_MINUTES v * 60 * 1000 > R
            then Suc (nextHandle s2) else nextHandle s2"
  have t: "timeouts (scheduleBossNotifications v R g k ?s3) =
     timeouts (clearBossTimers g k ?s3)
     @ (if m - PRE_SPAWN_NOTIFICATION_MINUTES v * 60 * 1000 > R
        then [\<lparr>handle = nextHandle ?s3,
               due = R + timerDelay (m - PRE_SPAWN_NOTIFICATION_MINUTES v * 60 * 1000 - R),
               callback = PreCallback g k\<rparr>]
        else [])
     @ (if m > R
        then [\<lparr>handle = (if m - PRE_SPAWN_NOTIFICATION_MINUTES v * 60 * 1000 > R
                         then Suc (nextHandle ?s3) else nextHandle ?s3),
               due = R + timerDelay (m - R), callback = SpawnCallback g k\<rparr>]
        else [])"
    by (rule timeouts_scheduleBossNotifications[OF g3 m3 b2(3)])
  have a: "map_of (activeTimers (scheduleBossNotifications v R g k ?s3)) (timerKey g k ''spawn'')
             = Some ?h"
    unfolding eq Let_def using b2(4) by (simp add: activeTimers_arm)
  have "\<lparr>handle = ?h, due = R + timerDelay (m - R), callback = SpawnCallback g k\<rparr>
          \<in> set (timeouts (scheduleBossNotifications v R g k ?s3))"
    unfolding t using b2(4) by simp
  moreover have "nextHandle s2 \<le> ?h" by simp
  ultimately show "\<exists>h. nextHandle s2 \<le> h
           \<and> map_of (activeTimers (scheduleBossNotifications v R g k ?s3))
                (timerKey g k ''spawn'') = Some h
           \<and> \<lparr>handle = h, due = R + timerDelay (m - R), callback = SpawnCallback g k\<rparr>
                \<in> set (timeouts (scheduleBossNotifications v R g k ?s3))"
    using a by blast
  show "map_option spawnNotificationJob (getBoss (scheduleBossNotifications v R g k ?s3) g k)
         = Some (Some (timerKey g k ''spawn''))"
    unfolding getBoss_scheduleBossNotifications[OF g3 m3 b2(3)] using b2(4) by simp
qed

lemma handles_scheduleBossNotifications:
  assumes "h \<in> handle ` set (timeouts (scheduleBossNotifications v R g k s))"
  shows "h \<in> handle ` set (timeouts s) \<or> nextHandle s \<le> h"
proof (cases rule: schedule_cases[of v R g k s])
  case noop
  then show ?thesis using assms by simp
next
  case (sched b m)
  show ?thesis
    using assms timeouts_clearBossTimers_subset[of g k s]
    unfolding timeouts_scheduleBossNotifications[OF sched]
    by (auto split: if_splits)
qed

lemma updateBossAsKilled_eq:
  assumes "getBoss s g k = Some b"
  shows "updateBossAsKilled v w now g k t True s =
           saveBossData w (scheduleBossNotifications v now g k
             (clearBossTimers g k (reply w ''killed'' (modifyBoss g k (killedUpdate t) s))))"
  using assms by (simp add: updateBossAsKilled_def Let_def)

lemma nextHandle_cancelAutoMiss [simp]: "nextHandle (cancelAutoMiss g k s) = nextHandle s"
  by (simp add: cancelAutoMiss_def Let_def clearTimeout_def split: option.splits)

lemma buttonUpdate_simps:
  "buttonUpdate ''dead'' M = killedUpdate M"
  "buttonUpdate ''miss'' M = missUpdate M"
  "buttonUpdate ''notappeared'' M = notAppearedUpdate M"
  by (rule ext, simp add: buttonUpdate_def)+

lemma respond_shape:
  assumes parse: "split CHR ''_'' customId = action # bossKey # guildId # rest"
    and boss: "getBoss s guildId bossKey = Some b"
    and shown: "buttonsShown w" and ok: "replyOk w"
    and act: "action = ''dead'' \<or> action = ''miss'' \<or> action = ''notappeared''"
  shows "\<exists>s2 b2. respond v w M R customId guildId s =
            modifyBoss guildId bossKey (\<lambda>b. b\<lparr>messageIdToTrack := None\<rparr>)
              (saveBossData w
                 (scheduleBossNotifications v (if action = ''dead'' then M else R) guildId bossKey
                    (clearBossTimers guildId bossKey s2)))
         \<and> timeouts s2 = timeouts (cancelAutoMiss guildId bossKey s)
         \<and> activeTimers s2 = activeTimers (cancelAutoMiss guildId bossKey s)
         \<and> nextHandle s2 = nextHandle s
         \<and> getBoss s2 guildId bossKey = Some b2
         \<and> stripJobs b2 = stripJobs (buttonUpdate action M b)"
proof -
  let ?s1 = "cancelAutoMiss guildId bossKey s"
  note unfolded = respond_unfold[OF parse boss shown, of v M R]
  obtain b1 where b1: "getBoss ?s1 guildId bossKey = Some b1" "stripJobs b1 = stripJobs b"
    using sameBosses_getBoss[OF sameBosses_cancelAutoMiss' boss] by blast
  have st: "stripJobs (buttonUpdate action M b1) = stripJobs (buttonUpdate action M b)"
    using b1(2) by (simp add: stripJobs_buttonUpdate_comm)
  have gen: "\<exists>s2 b2. X =
            modifyBoss guildId bossKey (\<lambda>b. b\<lparr>messageIdToTrack := None\<rparr>)
              (saveBossData w
                 (scheduleBossNotifications v T guildId bossKey
                    (clearBossTimers guildId bossKey s2)))
         \<and> timeouts s2 = timeouts ?s1
         \<and> activeTimers s2 = activeTimers ?s1
         \<and> nextHandle s2 = nextHandle s
         \<and> getBoss s2 guildId bossKey = Some b2
         \<and> stripJobs b2 = stripJobs (buttonUpdate action M b)"
    if "X = modifyBoss guildId bossKey (\<lambda>b. b\<lparr>messageIdToTrack := None\<rparr>)
              (saveBossData w
                 (scheduleBossNotifications v T guildId bossKey
                    (clearBossTimers guildId bossKey
                       (deliver d (modifyBoss guildId bossKey (buttonUpdate action M) ?s1)))))"
    for X T d
  proof -
    let ?s2 = "deliver d (modifyBoss guildId bossKey (buttonUpdate action M) ?s1)"
    have "getBoss ?s2 guildId bossKey = Some (buttonUpdate action M b1)"
      using b1(1) by (simp add: getBoss_def bossData_deliver getBoss_modifyBoss[unfolded getBoss_def])
    moreover have "timeouts ?s2 = timeouts ?s1" "activeTimers ?s2 = activeTimers ?s1"
      "nextHandle ?s2 = nextHandle s" by simp_all
    ultimately show ?thesis using that st by blast
  qed
  consider (dead) "action = ''dead''"
    | (miss) "action = ''miss''" "action \<noteq> ''dead''"
    | (na) "action = ''notappeared''" "action \<noteq> ''dead''" "action \<noteq> ''miss''"
    using act by blast
  then show ?thesis
  proof cases
    case dead
    have "respond v w M R customId guildId s =
            modifyBoss guildId bossKey (\<lambda>b. b\<lparr>messageIdToTrack := None\<rparr>)
              (saveBossData w
                 (scheduleBossNotifications v M guildId bossKey
                    (clearBossTimers guildId bossKey
                       (deliver (Replied ''killed'')
                          (modifyBoss guildId bossKey (buttonUpdate action M) ?s1)))))"
      using unfolded dead ok updateBossAsKilled_eq[OF b1(1), of v w M M]
      by (simp add: buttonUpdate_simps reply_def)
    from gen[OF this] show ?thesis using dead by simp
  next
    case miss
    have "respond v w M R customId guildId s =
            modifyBoss guildId bossKey (\<lambda>b. b\<lparr>messageIdToTrack := None\<rparr>)
              (saveBossData w
                 (scheduleBossNotifications v R guildId bossKey
                    (clearBossTimers guildId bossKey
                       (deliver (Replied ''missed'')
                          (modifyBoss guildId bossKey (buttonUpdate action M) ?s1)))))"
      using unfolded miss ok by (simp add: buttonUpdate_simps)
    from gen[OF this] show ?thesis using miss by simp
  next
    case na
    have "respond v w M R customId guildId s =
            modifyBoss guildId bossKey (\<lambda>b. b\<lparr>messageIdToTrack := None\<rparr>)
              (saveBossData w
                 (scheduleBossNotifications v R guildId bossKey
                    (clearBossTimers guildId bossKey
                       (deliver (Replied ''did not appear'')
                          (modifyBoss guildId bossKey (buttonUpdate action M) ?s1)))))"
      using unfolded na ok by (simp add: buttonUpdate_simps)
    from gen[OF this] show ?thesis using na by simp
  qed
qed

lemma map_of_cancelAutoMiss:
  assumes "key \<noteq> timerKey g k ''automiss''"
  shows "map_of (activeTimers (cancelAutoMiss g k s)) key = map_of (activeTimers s) key"
  using assms
  by (simp add: cancelAutoMiss_def Let_def clearTimeout_def delete_conv' split: option.splits)

lemma handles_cancelAutoMiss:
  assumes "map_of (activeTimers s) (timerKey g k ''automiss'') = Some h"
  shows "h \<notin> handle ` set (timeouts (cancelAutoMiss g k s))"
  using assms by (auto simp: cancelAutoMiss_def Let_def clearTimeout_def)

lemma cancelled:
  assumes reg: "map_of (activeTimers s) (timerKey g k (phaseName p)) = Some h"
    and old: "h < nextHandle s"
    and s2: "timeouts s2 = timeouts (cancelAutoMiss g k s)"
            "activeTimers s2 = activeTimers (cancelAutoMiss g k s)"
            "nextHandle s2 = nextHandle s"
  shows "h \<notin> handle ` set (timeouts (scheduleBossNotifications v T g k (clearBossTimers g k s2)))"
proof -
  let ?s3 = "clearBossTimers g k s2"
  have sub: "handle ` set (timeouts ?s3) \<subseteq> handle ` set (timeouts s2)"
    using timeouts_clearBossTimers_subset[of g k s2] by blast
  have A: "h \<notin> handle ` set (timeouts ?s3)"
  proof (cases "p = AutoMiss")
    case True
    then have "h \<notin> handle ` set (timeouts s2)"
      using reg handles_cancelAutoMiss[of s g k h] s2(1) by (simp add: phaseName_def)
    then show ?thesis using sub by blast
  next
    case False
    then have "timerKey g k (phaseName p) \<noteq> timerKey g k ''automiss''"
      by (cases p) (simp_all add: phaseName_def)
    then have "map_of (activeTimers s2) (timerKey g k (phaseName p)) = Some h"
      using reg s2(2) by (simp add: map_of_cancelAutoMiss)
    then show ?thesis by (rule handle_clearBossTimers)
  qed
  show ?thesis
  proof
    assume "h \<in> handle ` set (timeouts (scheduleBossNotifications v T g k ?s3))"
    from handles_scheduleBossNotifications[OF this]
    show False using A old s2(3) by simp
  qed
qed


lemma getBoss_tracked_some:
  "getBoss tracked ''1'' ''queen'' =
     Some (queenAnt\<lparr>lastKilled := Some 1000, nextSpawnEstimateMin := Some 79201000,
                     nextSpawnEstimateMax := Some 93601000,
                     notificationJob := Some ''1_queen_pre'',
                     spawnNotificationJob := Some ''1_queen_spawn''\<rparr>)"
  by code_simp

lemma registry_tracked:
  "map_of (activeTimers tracked) (timerKey ''1'' ''queen'' (phaseName Pre)) = Some 0"
  "map_of (activeTimers tracked) (timerKey ''1'' ''queen'' (phaseName Spawn)) = Some 1"
  "nextHandle tracked = 2"
  by code_simp+



section \<open>Stale callbacks\<close>

lemma preTimerFired_stale:
  assumes "getBoss s g k = None
           \<or> (\<exists>b. getBoss s g k = Some b \<and> notificationJob b \<noteq> Some (timerKey g k ''pre''))"
  shows "preTimerFired g k s = (s, None)"
  using assms by (auto simp: preTimerFired_def)

lemma spawnTimerFired_stale:
  assumes "getBoss s g k = None
           \<or> (\<exists>b. getBoss s g k = Some b
                 \<and> spawnNotificationJob b \<noteq> Some (timerKey g k ''spawn''))"
  shows "spawnTimerFired g k s = (s, None)"
  using assms by (auto simp: spawnTimerFired_def)

lemma autoMissTimerFired_stale:
  assumes "getBoss s g k = None
           \<or> (\<exists>b. getBoss s g k = Some b
                 \<and> autoMissJob b \<noteq> Some (timerKey g k ''automiss''))"
  shows "autoMissTimerFired g k mid chan s =
           (s\<lparr>activeTimers := AList.delete (timerKey g k ''automiss'') (activeTimers s)\<rparr>, None)"
proof -
  let ?d = "s\<lparr>activeTimers := AList.delete (timerKey g k ''automiss'') (activeTimers s)\<rparr>"
  let ?f = "\<lambda>b. if autoMissJob b = Some (timerKey g k ''automiss'')
                 then b\<lparr>autoMissJob := None\<rparr> else b"
  have gd: "getBoss ?d g k = getBoss s g k" by (simp add: getBoss_def)
  have id: "modifyBoss g k ?f ?d = ?d"
    by (rule modifyBoss_id) (use assms gd in auto)
  have dd: "AList.delete (timerKey g k ''automiss'')
              (AList.delete (timerKey g k ''automiss'') (activeTimers s))
            = AList.delete (timerKey g k ''automiss'') (activeTimers s)"
    by (rule delete_idem)
  have fin: "autoMissFinally g k ?d = ?d"
    unfolding autoMissFinally_def using id by (simp add: dd)
  have "autoMissTimerFired g k mid chan s = (autoMissFinally g k ?d, None)"
    using assms by (auto simp: autoMissTimerFired_def Let_def)
  then show ?thesis using fin by simp
qed

lemma reschedule_cancels_registered:
  assumes m: "map_option nextSpawnEstimateMin (getBoss s g k) = Some (Some m)" "m \<noteq> 0"
    and reg: "map_of (activeTimers s) (timerKey g k (phaseName p)) = Some h"
    and old: "h < nextHandle s"
  shows "h \<notin> handle ` set (timeouts (scheduleBossNotifications v now g k s))"
proof -
  obtain b where b: "getBoss s g k = Some b" "nextSpawnEstimateMin b = Some m"
    using m(1) by (cases "getBoss s g k") auto
  have c: "h \<notin> handle ` set (timeouts (clearBossTimers g k s))"
    using reg by (rule handle_clearBossTimers)
  show ?thesis
    unfolding timeouts_scheduleBossNotifications[OF b m(2)]
    using c old by (auto split: if_splits)
qed




section \<open>Two spawn timers for one boss\<close>

text \<open>
  C2 fails on the code.  A scheduling call cancels the timers that are registered under
  the keys of the boss, and the spawn callback, at its end, deletes its key from the
  registry whatever timer the key names by then.  In the run \<open>tracked\<close>,
  \<open>alertSending\<close>, \<open>killedMeanwhile\<close>, \<open>alertSent\<close>, \<open>killedAgain\<close>,
  \<open>earlyAlert\<close>: while the spawn callback of timer \<open>1\<close> waits for its send, a kill
  report arms timers \<open>2\<close> and \<open>3\<close> and registers them; the callback, resumed,
  deletes the key of the spawn phase, which names timer \<open>3\<close> by then; timer \<open>3\<close>
  stays armed and is not registered.  The next kill report therefore leaves two armed spawn
  timers for the boss, \<open>3\<close> and \<open>6\<close>, and so do two scheduling calls in
  succession (\<open>3\<close> and \<open>8\<close>).  Timer \<open>3\<close> passes its guard when it fires and
  sends a spawn alert an hour before the estimate of the last kill report; after that
  the callback of timer \<open>6\<close> returns at its guard, so no alert is sent at the estimate.
\<close>

theorem C2_two_spawn_timers:
  "snd (fire 1 preDone) = Some (SpawnFetch ''1'' ''queen'' (Some ''7''))
   \<and> snd (resume Index_js online 79201000 None (SpawnFetch ''1'' ''queen'' (Some ''7''))
             (fst (fire 1 preDone))) = Some (SpawnSend ''1'' ''queen'' ''7'')
   \<and> map handle (timeouts alertSending) = []
   \<and> map handle (timeouts killedMeanwhile) = [2, 3]
   \<and> activeTimers killedMeanwhile = [(''1_queen_pre'', 2), (''1_queen_spawn'', 3)]
   \<and> snd (resume Index_js online 79201200 None (SpawnSend ''1'' ''queen'' ''7'') killedMeanwhile)
       = None
   \<and> map handle (timeouts alertSent) = [2, 3, 4]
   \<and> activeTimers alertSent = [(''1_queen_pre'', 2), (''1_queen_automiss'', 4)]
   \<and> map handle (armed alertSent ''1'' ''queen'' Spawn) = [3]
   \<and> map handle (armed killedAgain ''1'' ''queen'' Spawn) = [3, 6]
   \<and> map due (armed killedAgain ''1'' ''queen'' Spawn) = [158401100, 162001000]
   \<and> map handle
        (armed (scheduleBossNotifications Index_js 79201500 ''1'' ''queen''
                  (scheduleBossNotifications Index_js 79201400 ''1'' ''queen'' alertSent))
           ''1'' ''queen'' Spawn) = [3, 8]
   \<and> snd (fire 3 killedAgain) = Some (SpawnFetch ''1'' ''queen'' (Some ''7''))
   \<and> last (outbox earlyAlert) = Sent ''7'' SpawnAlert ''1'' ''queen''
   \<and> length (outbox earlyAlert) = Suc (length (outbox killedAgain))
   \<and> fire 6 earlyAlert = (clearTimeout 6 earlyAlert, None)"
  by code_simp

end
